theory Spec2Isabelle
  imports Complex_Main "HOL-Library.Word" "HOL-Library.Sublist"
begin

section \<open>Data model of the bridge relayer (script.py)\<close>

text \<open>
  Python exceptions that the external libraries (web3, requests) can raise. The handlers of
  script.py distinguish three classes: \<open>requests.RequestException\<close> (caught by
  \<open>report_status\<close>), every other subclass of \<open>Exception\<close> (caught by the
  \<open>except Exception\<close> handlers), and \<open>KeyboardInterrupt\<close>, which is a
  \<open>BaseException\<close> and passes through every \<open>except Exception\<close>.
\<close>

datatype exn = RequestException | OtherException | KeyboardInterrupt

text \<open>\<open>except Exception\<close> catches exactly the first two.\<close>

definition is_Exception :: "exn \<Rightarrow> bool" where
  "is_Exception x = (x \<noteq> KeyboardInterrupt)"

type_synonym bytes32 = "256 word"
type_synonym address = string

text \<open>
  The decoded \<open>TokensDeposited\<close> event (SOURCE_BRIDGE_ABI) and the \<open>LogReceipt\<close> that
  carries it. web3 decodes \<open>args\<close> for every entry of a contract event filter. It passes
  \<open>transactionHash\<close> and \<open>blockNumber\<close> on as the node sent them, and the node's
  interface allows null for both (a log that is not in a block yet): they are optional
  here, \<open>None\<close> as in Python. The listener keys its set by
  \<open>event['transactionHash'].hex()\<close>; the hexadecimal rendering is injective, so the hash
  itself stands for it.
\<close>

record deposit_args =
  sender :: address
  recipient :: address
  amount :: int
  destinationChainId :: int
  transactionId :: bytes32

record log_receipt =
  transactionHash :: "bytes32 option"
  blockNumber :: "int option"
  logIndex :: nat
  args :: deposit_args

subsection \<open>BlockchainConnector.get_latest_block_number\<close>

text \<open>
  What the node answers during one call of \<open>get_latest_block_number\<close>:
  \<open>is_connected()\<close> before and after the reconnection attempt, and the value (or the
  exception) of \<open>web3.eth.block_number\<close>. \<open>_connect\<close> catches every
  \<open>Exception\<close> itself.
\<close>

record connector_env =
  connected_first :: bool
  connected_retry :: bool
  block_number :: "exn + int"

definition get_latest_block_number :: "connector_env \<Rightarrow> exn + int" where
  "get_latest_block_number c =
     (if \<not> connected_first c then
        (if \<not> connected_retry c then Inr 0 else block_number c)
      else block_number c)"

subsection \<open>BridgeEventListener\<close>

record listener =
  block_confirmations :: int
  processed_events :: "bytes32 set"

text \<open>
  One poll sees the connector's answers and the outcome of
  \<open>event_filter.get_new_entries()\<close>. The filter belongs to web3; which log entries it
  delivers, and whether it delivers an entry again, is the environment's choice.
\<close>

record poll_env =
  source :: connector_env
  new_entries :: "exn + log_receipt list"

text \<open>
  The \<open>for event in new_entries\<close> loop of \<open>get_confirmed_events\<close>, with the two
  variables it updates: \<open>self.processed_events\<close> and \<open>confirmed_events\<close>. The loop
  raises on \<open>event['transactionHash'].hex()\<close> when the hash is \<open>None\<close>
  (AttributeError), and on \<open>latest_block - event['blockNumber']\<close> when the block number
  is \<open>None\<close> (TypeError); the second is reached only for a hash that is not in the set.
  When it raises, the list built so far is lost and the set keeps what was added to it.
\<close>

fun confirm_loop ::
  "int \<Rightarrow> int \<Rightarrow> log_receipt list \<Rightarrow> bytes32 set \<Rightarrow> log_receipt list
    \<Rightarrow> (exn + log_receipt list) \<times> bytes32 set" where
  "confirm_loop latest_block depth [] processed confirmed_events =
     (Inr confirmed_events, processed)"
| "confirm_loop latest_block depth (event # rest) processed confirmed_events =
     (case transactionHash event of
        None \<Rightarrow> (Inl OtherException, processed)
      | Some tx_hash \<Rightarrow>
          if tx_hash \<in> processed then
            confirm_loop latest_block depth rest processed confirmed_events
          else
            (case blockNumber event of
               None \<Rightarrow> (Inl OtherException, processed)
             | Some block \<Rightarrow>
                 if latest_block - block \<ge> depth then
                   confirm_loop latest_block depth rest
                     (insert tx_hash processed) (confirmed_events @ [event])
                 else confirm_loop latest_block depth rest processed confirmed_events))"

text \<open>
  The body of the \<open>try\<close> block: the returned list, or the exception that leaves the
  body, and the listener as the body leaves it.
\<close>

definition get_confirmed_events_body ::
  "listener \<Rightarrow> poll_env \<Rightarrow> (exn + log_receipt list) \<times> listener" where
  "get_confirmed_events_body l env =
     (case get_latest_block_number (source env) of
        Inl x \<Rightarrow> (Inl x, l)
      | Inr latest_block \<Rightarrow>
          if latest_block = 0 then (Inr [], l)
          else
            (case new_entries env of
               Inl x \<Rightarrow> (Inl x, l)
             | Inr entries \<Rightarrow>
                 if entries = [] then (Inr [], l)
                 else
                   (case confirm_loop latest_block (block_confirmations l) entries
                           (processed_events l) [] of
                      (result, processed) \<Rightarrow> (result, l\<lparr>processed_events := processed\<rparr>))))"

text \<open>
  \<open>get_confirmed_events\<close>: the body under \<open>except Exception\<close>, which returns the
  empty list. The handler does not touch \<open>self.processed_events\<close>: what the loop added
  before it raised stays in the set.
\<close>

definition get_confirmed_events ::
  "listener \<Rightarrow> poll_env \<Rightarrow> (exn + log_receipt list) \<times> listener" where
  "get_confirmed_events l env =
     (case get_confirmed_events_body l env of
        (Inl x, l') \<Rightarrow> (if is_Exception x then Inr [] else Inl x, l')
      | (Inr confirmed_events, l') \<Rightarrow> (Inr confirmed_events, l'))"

text \<open>
  Successive polls of one listener, as the main loop makes them: the confirmed events of
  each cycle. An exception that leaves \<open>get_confirmed_events\<close> ends the loop.
\<close>

fun poll_outputs :: "listener \<Rightarrow> poll_env list \<Rightarrow> log_receipt list list" where
  "poll_outputs l [] = []"
| "poll_outputs l (env # envs) =
     (case get_confirmed_events l env of
        (Inl x, l') \<Rightarrow> []
      | (Inr confirmed_events, l') \<Rightarrow> confirmed_events # poll_outputs l' envs)"

text \<open>The listener after the same polls.\<close>

fun listener_after :: "listener \<Rightarrow> poll_env list \<Rightarrow> listener" where
  "listener_after l [] = l"
| "listener_after l (env # envs) =
     (case get_confirmed_events l env of
        (Inl x, l') \<Rightarrow> l'
      | (Inr confirmed_events, l') \<Rightarrow> listener_after l' envs)"

text \<open>The transaction hashes of a list of log entries.\<close>

definition hashes :: "log_receipt list \<Rightarrow> bytes32 set" where
  "hashes es = {t. \<exists>ev\<in>set es. transactionHash ev = Some t}"

subsection \<open>TransactionProcessor\<close>

record processor =
  relayer_address :: address
  chain_id :: int
  contract_address :: address
  processed_source_tx_ids :: "bytes32 set"

text \<open>
  The \<open>releaseTokens\<close> transaction: the fields of \<open>tx_data\<close>, the contract call with
  its three arguments, and the \<open>gas\<close> entry. \<open>tx_data\<close> has no \<open>gas\<close> entry;
  web3's \<open>build_transaction\<close> may put one into the dictionary it returns, and
  \<open>release_tx['gas'] = ...\<close> overwrites it.
\<close>

record release_tx =
  tx_from :: address
  tx_nonce :: nat
  tx_gasPrice :: nat
  tx_chainId :: int
  tx_to :: address
  tx_recipient :: address
  tx_amount :: int
  tx_sourceTransactionId :: bytes32
  tx_gas :: "nat option"

text \<open>
  What the destination node and web3 answer during one call of
  \<open>process_deposit_event\<close>, in the order of the calls: \<open>get_transaction_count\<close>,
  \<open>gas_price\<close>, \<open>build_transaction\<close>, \<open>estimate_gas\<close>,
  \<open>sign_transaction\<close>, \<open>send_raw_transaction\<close>. The answer of
  \<open>build_transaction\<close> is the \<open>gas\<close> entry of the dictionary it returns, if it has
  one; the other entries are those it was given.
\<close>

record dest_env =
  get_transaction_count :: "exn + nat"
  gas_price :: "exn + nat"
  build_transaction :: "exn + nat option"
  estimate_gas :: "exn + nat"
  sign_transaction :: "exn + unit"
  send_raw_transaction :: "exn + bytes32"

text \<open>The calls made on web3, in the order they are made.\<close>

datatype web3_call =
    GetTransactionCount address
  | GasPrice
  | BuildTransaction release_tx
  | EstimateGas release_tx
  | SignTransaction release_tx
  | SendRawTransaction release_tx

text \<open>
  The transaction with the \<open>gas\<close> entry \<open>g\<close>: with \<open>None\<close> it is what
  \<open>build_transaction\<close> is given, with the entry web3 chose it is what
  \<open>build_transaction\<close> returns.
\<close>

definition built_tx ::
  "processor \<Rightarrow> log_receipt \<Rightarrow> nat \<Rightarrow> nat \<Rightarrow> nat option \<Rightarrow> release_tx" where
  "built_tx p event nonce price g =
     \<lparr>tx_from = relayer_address p, tx_nonce = nonce, tx_gasPrice = price,
      tx_chainId = chain_id p, tx_to = contract_address p,
      tx_recipient = recipient (args event), tx_amount = amount (args event),
      tx_sourceTransactionId = transactionId (args event), tx_gas = g\<rparr>"

text \<open>
  The statements of \<open>process_deposit_event\<close> after the idempotency check, up to
  \<open>send_raw_transaction\<close>: the first exception ends them. The result is the hash of the
  sent transaction or the exception, with the calls made so far.
\<close>

definition release_steps ::
  "processor \<Rightarrow> dest_env \<Rightarrow> log_receipt \<Rightarrow> (exn + bytes32) \<times> web3_call list" where
  "release_steps p env event =
     (let c1 = [GetTransactionCount (relayer_address p)] in
      case get_transaction_count env of
        Inl x \<Rightarrow> (Inl x, c1)
      | Inr nonce \<Rightarrow>
     (let c2 = c1 @ [GasPrice] in
      case gas_price env of
        Inl x \<Rightarrow> (Inl x, c2)
      | Inr price \<Rightarrow>
     (let c3 = c2 @ [BuildTransaction (built_tx p event nonce price None)] in
      case build_transaction env of
        Inl x \<Rightarrow> (Inl x, c3)
      | Inr g0 \<Rightarrow>
     (let tx0 = built_tx p event nonce price g0; c4 = c3 @ [EstimateGas tx0] in
      case estimate_gas env of
        Inl x \<Rightarrow> (Inl x, c4)
      | Inr g \<Rightarrow>
     (let tx1 = tx0\<lparr>tx_gas := Some g\<rparr>; c5 = c4 @ [SignTransaction tx1] in
      case sign_transaction env of
        Inl x \<Rightarrow> (Inl x, c5)
      | Inr _ \<Rightarrow>
     (let c6 = c5 @ [SendRawTransaction tx1] in
      case send_raw_transaction env of
        Inl x \<Rightarrow> (Inl x, c6)
      | Inr tx_hash \<Rightarrow> (Inr tx_hash, c6)))))))"

text \<open>
  \<open>process_deposit_event\<close>: the returned boolean (or the exception that
  \<open>except Exception\<close> lets through), the processor afterwards, and the web3 calls made.
\<close>

definition process_deposit_event ::
  "processor \<Rightarrow> dest_env \<Rightarrow> log_receipt \<Rightarrow> (exn + bool) \<times> processor \<times> web3_call list" where
  "process_deposit_event p env event =
     (let source_tx_id = transactionId (args event) in
      if source_tx_id \<in> processed_source_tx_ids p then (Inr True, p, [])
      else
        (case release_steps p env event of
           (Inl x, calls) \<Rightarrow> (if is_Exception x then Inr False else Inl x, p, calls)
         | (Inr tx_hash, calls) \<Rightarrow>
             (Inr True,
              p\<lparr>processed_source_tx_ids := insert source_tx_id (processed_source_tx_ids p)\<rparr>,
              calls)))"

text \<open>
  The three results of the specification's \<open>relay()\<close>, read off a call of
  \<open>process_deposit_event\<close>: \<open>True\<close> after a broadcast is Submitted, \<open>True\<close> with
  no call made is Skipped, \<open>False\<close> is Failed. The boolean alone does not tell the
  first two apart.
\<close>

datatype relay_result = Submitted | Skipped | Failed

definition is_send :: "web3_call \<Rightarrow> bool" where
  "is_send c = (case c of SendRawTransaction _ \<Rightarrow> True | _ \<Rightarrow> False)"

definition relay_result_of :: "(exn + bool) \<times> processor \<times> web3_call list \<Rightarrow> exn + relay_result" where
  "relay_result_of r =
     (case r of
        (Inl x, _, _) \<Rightarrow> Inl x
      | (Inr b, _, calls) \<Rightarrow>
          Inr (if \<not> b then Failed else if calls = [] then Skipped else Submitted))"

definition relay :: "processor \<Rightarrow> dest_env \<Rightarrow> log_receipt \<Rightarrow> exn + relay_result" where
  "relay p env event = relay_result_of (process_deposit_event p env event)"

text \<open>
  A sequence of calls of \<open>process_deposit_event\<close> on one processor, each with its
  event and the answers it meets: the result and the web3 calls of each.
\<close>

fun relay_seq ::
  "processor \<Rightarrow> (dest_env \<times> log_receipt) list \<Rightarrow> ((exn + relay_result) \<times> web3_call list) list" where
  "relay_seq p [] = []"
| "relay_seq p ((env, event) # rest) =
     (case process_deposit_event p env event of
        (r, p', calls) \<Rightarrow> (relay_result_of (r, p', calls), calls) # relay_seq p' rest)"

text \<open>Every step of the destination answers without an exception.\<close>

definition returns :: "exn + 'a \<Rightarrow> bool" where
  "returns r = (case r of Inl _ \<Rightarrow> False | Inr _ \<Rightarrow> True)"

definition all_ok :: "dest_env \<Rightarrow> bool" where
  "all_ok env =
     (returns (get_transaction_count env) \<and> returns (gas_price env)
      \<and> returns (build_transaction env) \<and> returns (estimate_gas env)
      \<and> returns (sign_transaction env) \<and> returns (send_raw_transaction env))"

text \<open>
  The answers of the destination up to and including \<open>sign_transaction\<close> are without an
  exception, so that \<open>send_raw_transaction\<close> is called.
\<close>

definition reaches_broadcast :: "dest_env \<Rightarrow> bool" where
  "reaches_broadcast env =
     (returns (get_transaction_count env) \<and> returns (gas_price env)
      \<and> returns (build_transaction env) \<and> returns (estimate_gas env)
      \<and> returns (sign_transaction env))"

text \<open>
  The exception of the first of the six answers that is one, in the order of the calls;
  \<open>None\<close> when every answer is a value.
\<close>

definition first_raise :: "dest_env \<Rightarrow> exn option" where
  "first_raise env =
     (case get_transaction_count env of
        Inl x \<Rightarrow> Some x
      | Inr _ \<Rightarrow>
     (case gas_price env of
        Inl x \<Rightarrow> Some x
      | Inr _ \<Rightarrow>
     (case build_transaction env of
        Inl x \<Rightarrow> Some x
      | Inr _ \<Rightarrow>
     (case estimate_gas env of
        Inl x \<Rightarrow> Some x
      | Inr _ \<Rightarrow>
     (case sign_transaction env of
        Inl x \<Rightarrow> Some x
      | Inr _ \<Rightarrow>
     (case send_raw_transaction env of
        Inl x \<Rightarrow> Some x
      | Inr _ \<Rightarrow> None))))))"

text \<open>
  The number of Submitted results in a sequence of relay calls, and the
  \<open>send_raw_transaction\<close> calls of the whole sequence.
\<close>

definition submitted_count :: "((exn + relay_result) \<times> web3_call list) list \<Rightarrow> nat" where
  "submitted_count rs = length (filter (\<lambda>r. fst r = Inr Submitted) rs)"

definition broadcasts :: "((exn + relay_result) \<times> web3_call list) list \<Rightarrow> web3_call list" where
  "broadcasts rs = filter is_send (concat (map snd rs))"

subsection \<open>HealthMonitor\<close>

text \<open>\<open>time.time()\<close> is a float of seconds; it is taken as a real number here.\<close>

record monitor =
  relayer_id :: address
  last_checkin :: real
  checkin_interval :: real

datatype status = OPERATIONAL | ERROR

record payload =
  relayerId :: address
  report_status_of :: status
  timestamp :: int
  lastSourceBlock :: int
  pendingTransactions :: int

text \<open>Python's \<open>int(x)\<close> on a float truncates towards zero.\<close>

definition py_int :: "real \<Rightarrow> int" where
  "py_int x = (if x \<ge> 0 then \<lfloor>x\<rfloor> else \<lceil>x\<rceil>)"

text \<open>
  \<open>report_status\<close>, given the clock and the outcome of \<open>requests.post\<close> (the status
  code of the response, or the exception): the exception that leaves it, if any, the
  monitor afterwards, and the payloads posted.
\<close>

definition report_status ::
  "monitor \<Rightarrow> real \<Rightarrow> (exn + nat) \<Rightarrow> status \<Rightarrow> int \<Rightarrow> int
    \<Rightarrow> (exn + unit) \<times> monitor \<times> payload list" where
  "report_status m current_time post st last_processed_block pending_tx =
     (if current_time - last_checkin m < checkin_interval m then (Inr (), m, [])
      else
        (let body = \<lparr>relayerId = relayer_id m, report_status_of = st,
                      timestamp = py_int current_time,
                      lastSourceBlock = last_processed_block,
                      pendingTransactions = pending_tx\<rparr> in
         case post of
           Inr status_code \<Rightarrow> (Inr (), m\<lparr>last_checkin := current_time\<rparr>, [body])
         | Inl x \<Rightarrow> (if x = RequestException then Inr () else Inl x, m, [body])))"

text \<open>
  A sequence of \<open>report_status\<close> calls on one monitor, each with its clock reading and
  the outcome of the post it would make: all payloads posted. An exception leaving a call
  ends the sequence.
\<close>

fun report_seq :: "monitor \<Rightarrow> (real \<times> (exn + nat) \<times> status \<times> int \<times> int) list \<Rightarrow> payload list" where
  "report_seq m [] = []"
| "report_seq m ((t, post, st, blk, pending) # rest) =
     (case report_status m t post st blk pending of
        (Inl x, m', pushed) \<Rightarrow> pushed
      | (Inr _, m', pushed) \<Rightarrow> pushed @ report_seq m' rest)"

subsection \<open>main: the event loop\<close>

record relayer =
  the_listener :: listener
  the_processor :: processor
  the_monitor :: monitor

text \<open>What one iteration of \<open>while True\<close> meets, in the order of its calls.\<close>

record cycle_env =
  poll :: poll_env
  relays :: "nat \<Rightarrow> dest_env"
  height :: connector_env
  clock :: real
  post_outcome :: "exn + nat"
  sleep :: "exn + unit"

datatype effect = Web3 web3_call | Push payload

text \<open>
  \<open>for event in confirmed_events: processor.process_deposit_event(event)\<close>; the boolean
  is dropped, an exception leaving the call ends the loop. The \<open>i\<close>-th event of the cycle
  meets the answers \<open>relays env i\<close>.
\<close>

fun relay_all ::
  "processor \<Rightarrow> (nat \<Rightarrow> dest_env) \<Rightarrow> nat \<Rightarrow> log_receipt list
    \<Rightarrow> (exn + unit) \<times> processor \<times> web3_call list" where
  "relay_all p envs i [] = (Inr (), p, [])"
| "relay_all p envs i (event # rest) =
     (case process_deposit_event p (envs i) event of
        (Inl x, p', calls) \<Rightarrow> (Inl x, p', calls)
      | (Inr _, p', calls) \<Rightarrow>
          (case relay_all p' envs (Suc i) rest of
             (r, p'', calls') \<Rightarrow> (r, p'', calls @ calls')))"

text \<open>
  The body of the loop: poll, relay each confirmed event, report OPERATIONAL with the
  latest block number and the number of confirmed events, sleep.
\<close>

definition loop_body :: "relayer \<Rightarrow> cycle_env \<Rightarrow> (exn + unit) \<times> relayer \<times> effect list" where
  "loop_body r env =
     (case get_confirmed_events (the_listener r) (poll env) of
        (Inl x, l') \<Rightarrow> (Inl x, r\<lparr>the_listener := l'\<rparr>, [])
      | (Inr confirmed_events, l') \<Rightarrow>
     (let r1 = r\<lparr>the_listener := l'\<rparr> in
      case relay_all (the_processor r1) (relays env) 0 confirmed_events of
        (Inl x, p', calls) \<Rightarrow> (Inl x, r1\<lparr>the_processor := p'\<rparr>, map Web3 calls)
      | (Inr _, p', calls) \<Rightarrow>
     (let r2 = r1\<lparr>the_processor := p'\<rparr> in
      case get_latest_block_number (height env) of
        Inl x \<Rightarrow> (Inl x, r2, map Web3 calls)
      | Inr latest \<Rightarrow>
     (case report_status (the_monitor r2) (clock env) (post_outcome env) OPERATIONAL latest
             (int (length confirmed_events)) of
        (Inl x, m', pushed) \<Rightarrow> (Inl x, r2\<lparr>the_monitor := m'\<rparr>, map Web3 calls @ map Push pushed)
      | (Inr _, m', pushed) \<Rightarrow>
     (let r3 = r2\<lparr>the_monitor := m'\<rparr> in
      case sleep env of
        Inl x \<Rightarrow> (Inl x, r3, map Web3 calls @ map Push pushed)
      | Inr _ \<Rightarrow> (Inr (), r3, map Web3 calls @ map Push pushed))))))"

text \<open>
  How \<open>main\<close> ends once the loop is entered. \<open>Running\<close>: every cycle observed so far
  came back and the loop goes on. \<open>Shutdown\<close>: \<open>except KeyboardInterrupt\<close>.
  \<open>Fatal\<close>: \<open>except Exception\<close>, after its \<open>report_status('ERROR', 0, 0)\<close>
  returned. \<open>Crashed\<close>: that report raised in its turn.
\<close>

datatype exit = Running | Shutdown | Fatal | Crashed

text \<open>The clock and the outcome of the post met by the handler's report.\<close>

record handler_env =
  handler_clock :: real
  handler_post :: "exn + nat"

definition handle_exception :: "exn \<Rightarrow> relayer \<Rightarrow> handler_env \<Rightarrow> exit \<times> relayer \<times> effect list" where
  "handle_exception x r h =
     (if x = KeyboardInterrupt then (Shutdown, r, [])
      else
        (case report_status (the_monitor r) (handler_clock h) (handler_post h) ERROR 0 0 of
           (Inl y, m', pushed) \<Rightarrow> (Crashed, r\<lparr>the_monitor := m'\<rparr>, map Push pushed)
         | (Inr _, m', pushed) \<Rightarrow> (Fatal, r\<lparr>the_monitor := m'\<rparr>, map Push pushed)))"

text \<open>
  \<open>while True\<close> over the cycles observed: the loop runs as long as the body returns; the
  first exception that leaves the body goes to the handlers of \<open>main\<close>.
\<close>

fun main_loop :: "relayer \<Rightarrow> cycle_env list \<Rightarrow> handler_env \<Rightarrow> exit \<times> relayer \<times> effect list" where
  "main_loop r [] h = (Running, r, [])"
| "main_loop r (env # envs) h =
     (case loop_body r env of
        (Inl x, r', effects) \<Rightarrow>
          (case handle_exception x r' h of
             (e, r'', effects') \<Rightarrow> (e, r'', effects @ effects'))
      | (Inr _, r', effects) \<Rightarrow>
          (case main_loop r' envs h of
             (e, r'', effects') \<Rightarrow> (e, r'', effects @ effects')))"

subsection \<open>Environments and events used in the scenarios\<close>

text \<open>A source node that is connected and reports the block number \<open>H\<close>.\<close>

definition reachable :: "int \<Rightarrow> connector_env" where
  "reachable H = \<lparr>connected_first = True, connected_retry = True, block_number = Inr H\<rparr>"

text \<open>A poll that reaches the node at height \<open>H\<close> and is delivered \<open>entries\<close>.\<close>

definition healthy_poll :: "int \<Rightarrow> log_receipt list \<Rightarrow> poll_env" where
  "healthy_poll H entries = \<lparr>source = reachable H, new_entries = Inr entries\<rparr>"

definition healthy_polls :: "(int \<times> log_receipt list) list \<Rightarrow> poll_env list" where
  "healthy_polls cycles = map (\<lambda>(H, es). healthy_poll H es) cycles"

text \<open>
  A listener as \<open>__init__\<close> leaves it, with the default depth of 12; one configured with
  the depth 0; and one that has \<open>0xA1\<close> in its set.
\<close>

definition listener0 :: listener where
  "listener0 = \<lparr>block_confirmations = 12, processed_events = {}\<rparr>"


definition listener_seen_deposit :: listener where
  "listener_seen_deposit = listener0\<lparr>processed_events := {0xA1}\<rparr>"

definition deposit :: log_receipt where
  "deposit = \<lparr>transactionHash = Some 0xA1, blockNumber = Some 100, logIndex = 0,
     args = \<lparr>sender = ''alice'', recipient = ''bob'', amount = 5, destinationChainId = 2,
             transactionId = 0xAB\<rparr>\<rparr>"


text \<open>A deposit of a later block.\<close>

definition later_deposit :: log_receipt where
  "later_deposit = \<lparr>transactionHash = Some 0xA2, blockNumber = Some 101, logIndex = 0,
     args = \<lparr>sender = ''dave'', recipient = ''erin'', amount = 1, destinationChainId = 2,
             transactionId = 0xAD\<rparr>\<rparr>"

text \<open>
  A log entry that the node sends without a block number, one that it sends without a
  transaction hash either, and a deposit in block 0.
\<close>

definition pending_entry :: log_receipt where
  "pending_entry = \<lparr>transactionHash = Some 0xA3, blockNumber = None, logIndex = 0,
     args = \<lparr>sender = ''frank'', recipient = ''grace'', amount = 2, destinationChainId = 2,
             transactionId = 0xAE\<rparr>\<rparr>"

definition null_hash_entry :: log_receipt where
  "null_hash_entry = \<lparr>transactionHash = None, blockNumber = None, logIndex = 0,
     args = \<lparr>sender = ''judy'', recipient = ''karl'', amount = 4, destinationChainId = 2,
             transactionId = 0xB0\<rparr>\<rparr>"


text \<open>The same transfer sent again on the source chain: another hash, the same id.\<close>

definition resent_deposit :: log_receipt where
  "resent_deposit = \<lparr>transactionHash = Some 0xB7, blockNumber = Some 104, logIndex = 3,
     args = \<lparr>sender = ''alice'', recipient = ''bob'', amount = 5, destinationChainId = 2,
             transactionId = 0xAB\<rparr>\<rparr>"





text \<open>Polls that fail: the node unreachable, the height query raising, the log fetch raising.\<close>

definition unreachable_poll :: poll_env where
  "unreachable_poll =
     \<lparr>source = \<lparr>connected_first = False, connected_retry = False, block_number = Inr 120\<rparr>,
      new_entries = Inr [deposit]\<rparr>"

definition height_query_raises :: poll_env where
  "height_query_raises =
     \<lparr>source = \<lparr>connected_first = True, connected_retry = True,
                block_number = Inl OtherException\<rparr>,
      new_entries = Inr [deposit]\<rparr>"

definition log_fetch_raises :: poll_env where
  "log_fetch_raises = \<lparr>source = reachable 120, new_entries = Inl RequestException\<rparr>"

text \<open>A processor as \<open>__init__\<close> leaves it, and one that has relayed the id \<open>0xAB\<close>.\<close>

definition processor0 :: processor where
  "processor0 = \<lparr>relayer_address = ''relayer'', chain_id = 2, contract_address = ''bridge'',
                  processed_source_tx_ids = {}\<rparr>"

definition processor_done :: processor where
  "processor_done = processor0\<lparr>processed_source_tx_ids := {0xAB}\<rparr>"

text \<open>
  A destination where every step succeeds, and six where one step raises: each of the
  calls of \<open>process_deposit_event\<close> in turn.
\<close>

definition dest_ok :: dest_env where
  "dest_ok = \<lparr>get_transaction_count = Inr 7, gas_price = Inr 3,
     build_transaction = Inr (Some 30000), estimate_gas = Inr 21000,
     sign_transaction = Inr (), send_raw_transaction = Inr 0xF00\<rparr>"

definition nonce_raises :: dest_env where
  "nonce_raises = dest_ok\<lparr>get_transaction_count := Inl OtherException\<rparr>"

definition gas_price_raises :: dest_env where
  "gas_price_raises = dest_ok\<lparr>gas_price := Inl OtherException\<rparr>"

definition build_raises :: dest_env where
  "build_raises = dest_ok\<lparr>build_transaction := Inl OtherException\<rparr>"

definition estimate_gas_raises :: dest_env where
  "estimate_gas_raises = dest_ok\<lparr>estimate_gas := Inl OtherException\<rparr>"

definition sign_raises :: dest_env where
  "sign_raises = dest_ok\<lparr>sign_transaction := Inl OtherException\<rparr>"

definition send_raises :: dest_env where
  "send_raises = dest_ok\<lparr>send_raw_transaction := Inl RequestException\<rparr>"

text \<open>
  The transaction that \<open>processor0\<close> hands to \<open>build_transaction\<close> for \<open>deposit\<close>
  against these destinations.
\<close>

definition release_of_deposit :: release_tx where
  "release_of_deposit =
     \<lparr>tx_from = ''relayer'', tx_nonce = 7, tx_gasPrice = 3, tx_chainId = 2, tx_to = ''bridge'',
      tx_recipient = ''bob'', tx_amount = 5, tx_sourceTransactionId = 0xAB, tx_gas = None\<rparr>"

text \<open>Sequences of relay calls that carry the id \<open>0xAB\<close>.\<close>

definition three_deliveries :: "(dest_env \<times> log_receipt) list" where
  "three_deliveries =
     [(estimate_gas_raises, deposit), (dest_ok, deposit), (dest_ok, resent_deposit)]"

definition two_failures :: "(dest_env \<times> log_receipt) list" where
  "two_failures = [(estimate_gas_raises, deposit), (estimate_gas_raises, deposit)]"

definition failed_broadcast_then_success :: "(dest_env \<times> log_receipt) list" where
  "failed_broadcast_then_success = [(send_raises, deposit), (dest_ok, deposit)]"

text \<open>A monitor as \<open>__init__\<close> leaves it.\<close>

definition monitor0 :: monitor where
  "monitor0 = \<lparr>relayer_id = ''relayer'', last_checkin = 0, checkin_interval = 60\<rparr>"

text \<open>
  Scenario D: three reports 20 seconds apart, starting at \<open>t\<close>; with a sink that answers
  each post with a status code, and with a sink that cannot be reached.
\<close>

definition spaced_reports ::
  "real \<Rightarrow> nat \<Rightarrow> nat \<Rightarrow> nat \<Rightarrow> (real \<times> (exn + nat) \<times> status \<times> int \<times> int) list" where
  "spaced_reports t c1 c2 c3 =
     [(t, Inr c1, OPERATIONAL, 112, 0),
      (t + 20, Inr c2, OPERATIONAL, 113, 0),
      (t + 40, Inr c3, OPERATIONAL, 115, 0)]"

definition unreachable_spaced_reports ::
  "real \<Rightarrow> (real \<times> (exn + nat) \<times> status \<times> int \<times> int) list" where
  "unreachable_spaced_reports t =
     [(t, Inl RequestException, OPERATIONAL, 112, 0),
      (t + 20, Inl RequestException, OPERATIONAL, 113, 0),
      (t + 40, Inl RequestException, OPERATIONAL, 115, 0)]"

text \<open>
  The relayer when the loop is entered; after a first cycle that confirmed \<open>deposit\<close>,
  failed to relay it and checked in at 1000 seconds; and after a first cycle that only
  checked in.
\<close>

definition relayer0 :: relayer where
  "relayer0 = \<lparr>the_listener = listener0, the_processor = processor0, the_monitor = monitor0\<rparr>"

definition relayer_after_first_cycle :: relayer where
  "relayer_after_first_cycle =
     \<lparr>the_listener = listener_seen_deposit,
      the_processor = processor0,
      the_monitor = monitor0\<lparr>last_checkin := 1000\<rparr>\<rparr>"

definition relayer_checked_in :: relayer where
  "relayer_checked_in = relayer0\<lparr>the_monitor := monitor0\<lparr>last_checkin := 1000\<rparr>\<rparr>"

text \<open>
  Scenario C in the loop: the deposit is confirmed at height 112 and \<open>estimate_gas\<close>
  raises; 15 seconds later the log fetch delivers the deposit again and the destination
  would accept the release.
\<close>

definition failing_relay_cycle :: cycle_env where
  "failing_relay_cycle =
     \<lparr>poll = healthy_poll 112 [deposit], relays = (\<lambda>i. estimate_gas_raises),
      height = reachable 112, clock = 1000, post_outcome = Inr 200, sleep = Inr ()\<rparr>"

definition redelivery_cycle :: cycle_env where
  "redelivery_cycle =
     \<lparr>poll = healthy_poll 113 [deposit], relays = (\<lambda>i. dest_ok),
      height = reachable 113, clock = 1015, post_outcome = Inr 200, sleep = Inr ()\<rparr>"

text \<open>
  A cycle without events that checks in at 1000 seconds, and a cycle, 15 seconds later, in
  which \<open>web3.eth.block_number\<close> raises when the loop asks for the height to report.
\<close>

definition quiet_cycle :: cycle_env where
  "quiet_cycle =
     \<lparr>poll = healthy_poll 112 [], relays = (\<lambda>i. dest_ok),
      height = reachable 112, clock = 1000, post_outcome = Inr 200, sleep = Inr ()\<rparr>"

definition height_raises_cycle :: cycle_env where
  "height_raises_cycle =
     \<lparr>poll = healthy_poll 113 [], relays = (\<lambda>i. dest_ok),
      height = \<lparr>connected_first = True, connected_retry = True,
                block_number = Inl OtherException\<rparr>,
      clock = 1015, post_outcome = Inr 200, sleep = Inr ()\<rparr>"

definition handler_soon :: handler_env where
  "handler_soon = \<lparr>handler_clock = 1015, handler_post = Inr 200\<rparr>"

text \<open>
  The payload of the OPERATIONAL report of the first cycle, and the payload of
  \<open>report_status('ERROR', 0, 0)\<close> at 1015 seconds.
\<close>

definition operational_payload :: payload where
  "operational_payload =
     \<lparr>relayerId = ''relayer'', report_status_of = OPERATIONAL, timestamp = 1000,
      lastSourceBlock = 112, pendingTransactions = 0\<rparr>"

definition error_payload :: payload where
  "error_payload =
     \<lparr>relayerId = ''relayer'', report_status_of = ERROR, timestamp = 1015,
      lastSourceBlock = 0, pendingTransactions = 0\<rparr>"

section \<open>The loop of the listener\<close>

text \<open>The list built so far is only appended to.\<close>

lemma confirm_loop_acc:
  "confirm_loop H d es P acc =
     (case fst (confirm_loop H d es P []) of Inl x \<Rightarrow> Inl x | Inr c \<Rightarrow> Inr (acc @ c),
      snd (confirm_loop H d es P []))"
proof (induction es arbitrary: P acc)
  case Nil
  show ?case by simp
next
  case (Cons e es)
  show ?case
  proof (cases "transactionHash e")
    case None
    then show ?thesis by simp
  next
    case (Some t)
    show ?thesis
    proof (cases "blockNumber e")
      case None
      then show ?thesis using Some Cons.IH [of P acc] by simp
    next
      case (Some b)
      show ?thesis
        using \<open>transactionHash e = Some t\<close> Some
          Cons.IH [of "insert t P" "acc @ [e]"] Cons.IH [of "insert t P" "[e]"]
          Cons.IH [of P acc]
        by (simp split: sum.splits)
    qed
  qed
qed

lemma confirm_loop_Cons:
  "confirm_loop H d (e # es) P [] =
     (case transactionHash e of
        None \<Rightarrow> (Inl OtherException, P)
      | Some t \<Rightarrow>
          if t \<in> P then confirm_loop H d es P []
          else
            (case blockNumber e of
               None \<Rightarrow> (Inl OtherException, P)
             | Some b \<Rightarrow>
                 if H - b \<ge> d then
                   (case fst (confirm_loop H d es (insert t P) []) of
                      Inl x \<Rightarrow> Inl x
                    | Inr c \<Rightarrow> Inr (e # c),
                    snd (confirm_loop H d es (insert t P) []))
                 else confirm_loop H d es P []))"
  using confirm_loop_acc [of H d es _ "[e]"]
  by (simp split: option.splits sum.splits)

lemma confirm_loop_mono: "P \<subseteq> snd (confirm_loop H d es P [])"
proof (induction es arbitrary: P)
  case Nil
  show ?case by simp
next
  case (Cons e es)
  show ?case
    using Cons.IH [of P] Cons.IH [of "insert (the (transactionHash e)) P"]
    by (auto simp: confirm_loop_Cons simp del: confirm_loop.simps(2) split: option.splits)
qed

lemma confirm_loop_new:
  "t \<in> snd (confirm_loop H d es P []) \<Longrightarrow> t \<notin> P \<Longrightarrow>
   \<exists>ev\<in>set es. transactionHash ev = Some t \<and> (\<exists>b. blockNumber ev = Some b \<and> d \<le> H - b)"
proof (induction es arbitrary: P)
  case Nil
  then show ?case by simp
next
  case (Cons e es)
  show ?case
  proof (cases "transactionHash e")
    case None
    then show ?thesis using Cons.prems
      by (simp add: confirm_loop_Cons del: confirm_loop.simps(2))
  next
    case (Some u)
    note hash = Some
    show ?thesis
    proof (cases "u \<in> P")
      case True
      then show ?thesis using Cons.prems Cons.IH [of P] hash
        by (auto simp: confirm_loop_Cons simp del: confirm_loop.simps(2))
    next
      case False
      show ?thesis
      proof (cases "blockNumber e")
        case None
        then show ?thesis using Cons.prems hash False
          by (simp add: confirm_loop_Cons del: confirm_loop.simps(2))
      next
        case (Some b)
        show ?thesis
        proof (cases "d \<le> H - b")
          case True
          show ?thesis
          proof (cases "t = u")
            case True
            then show ?thesis using hash Some \<open>d \<le> H - b\<close> by auto
          next
            case False
            then have "t \<notin> insert u P" using Cons.prems(2) by simp
            moreover have "t \<in> snd (confirm_loop H d es (insert u P) [])"
              using Cons.prems(1) hash Some \<open>u \<notin> P\<close> True
              by (simp add: confirm_loop_Cons del: confirm_loop.simps(2))
            ultimately show ?thesis using Cons.IH [of "insert u P"] by auto
          qed
        next
          case False
          then show ?thesis using Cons.prems Cons.IH [of P] hash Some \<open>u \<notin> P\<close>
            by (auto simp: confirm_loop_Cons simp del: confirm_loop.simps(2))
        qed
      qed
    qed
  qed
qed

lemma confirm_loop_Inr:
  "fst (confirm_loop H d es P []) = Inr c \<Longrightarrow>
   snd (confirm_loop H d es P []) = P \<union> hashes c
   \<and> distinct (map transactionHash c)
   \<and> subseq c es
   \<and> (\<forall>ev\<in>set c. ev \<in> set es
         \<and> (\<exists>t. transactionHash ev = Some t \<and> t \<notin> P)
         \<and> (\<exists>b. blockNumber ev = Some b \<and> d \<le> H - b))"
proof (induction es arbitrary: P c)
  case Nil
  then show ?case by (auto simp: hashes_def)
next
  case (Cons e es)
  show ?case
  proof (cases "transactionHash e")
    case None
    then show ?thesis using Cons.prems
      by (simp add: confirm_loop_Cons del: confirm_loop.simps(2))
  next
    case (Some u)
    note hash = Some
    show ?thesis
    proof (cases "u \<in> P")
      case True
      then show ?thesis using Cons.prems Cons.IH [of P c] hash
        by (auto simp: confirm_loop_Cons simp del: confirm_loop.simps(2))
    next
      case False
      show ?thesis
      proof (cases "blockNumber e")
        case None
        then show ?thesis using Cons.prems hash False
          by (simp add: confirm_loop_Cons del: confirm_loop.simps(2))
      next
        case (Some b)
        show ?thesis
        proof (cases "d \<le> H - b")
          case True
          from Cons.prems hash Some \<open>u \<notin> P\<close> True
          obtain c' where c': "fst (confirm_loop H d es (insert u P) []) = Inr c'"
            and c: "c = e # c'"
            by (cases "fst (confirm_loop H d es (insert u P) [])")
               (auto simp: confirm_loop_Cons simp del: confirm_loop.simps(2))
          note IH = Cons.IH [OF c']
          have snd_eq: "snd (confirm_loop H d (e # es) P []) =
                          snd (confirm_loop H d es (insert u P) [])"
            using hash Some \<open>u \<notin> P\<close> True
            by (simp add: confirm_loop_Cons del: confirm_loop.simps(2))
          have h: "hashes (e # c') = insert u (hashes c')"
            using hash by (auto simp: hashes_def)
          have not_in: "Some u \<notin> transactionHash ` set c'"
            using IH by force
          show ?thesis
            unfolding snd_eq c h
            using IH hash Some True \<open>u \<notin> P\<close> not_in by auto
        next
          case False
          then show ?thesis using Cons.prems Cons.IH [of P c] hash Some \<open>u \<notin> P\<close>
            by (auto simp: confirm_loop_Cons simp del: confirm_loop.simps(2))
        qed
      qed
    qed
  qed
qed


lemma confirm_loop_null_hash:
  "\<exists>ev\<in>set es. transactionHash ev = None \<Longrightarrow>
   fst (confirm_loop H d es P []) = Inl OtherException"
proof (induction es arbitrary: P)
  case Nil
  then show ?case by simp
next
  case (Cons e es)
  show ?case
  proof (cases "transactionHash e")
    case None
    then show ?thesis by (simp add: confirm_loop_Cons del: confirm_loop.simps(2))
  next
    case (Some u)
    then have rest: "\<exists>ev\<in>set es. transactionHash ev = None" using Cons.prems by auto
    show ?thesis
      using Some Cons.IH [OF rest, of P] Cons.IH [OF rest, of "insert u P"]
      by (simp add: confirm_loop_Cons del: confirm_loop.simps(2) split: option.splits)
  qed
qed

lemma confirm_loop_exn:
  "fst (confirm_loop H d es P []) = Inl x \<Longrightarrow> x = OtherException"
proof (induction es arbitrary: P)
  case Nil
  then show ?case by simp
next
  case (Cons e es)
  then show ?case
    by (auto simp: confirm_loop_Cons simp del: confirm_loop.simps(2)
          split: option.splits if_splits sum.splits)
qed

section \<open>One poll and successive polls\<close>

lemma get_confirmed_events_cases:
  assumes "get_confirmed_events l env = (r, l')"
  shows "(l' = l \<and> (r = Inr [] \<or> r = Inl KeyboardInterrupt)) \<or>
         (\<exists>H es. get_latest_block_number (source env) = Inr H \<and> H \<noteq> 0
            \<and> new_entries env = Inr es
            \<and> l' = l\<lparr>processed_events :=
                       snd (confirm_loop H (block_confirmations l) es (processed_events l) [])\<rparr>
            \<and> r = (case fst (confirm_loop H (block_confirmations l) es (processed_events l) [])
                     of Inl x \<Rightarrow> Inr [] | Inr c \<Rightarrow> Inr c))"
proof (cases "get_latest_block_number (source env)")
  case (Inl x)
  then show ?thesis using assms
    by (auto simp: get_confirmed_events_def get_confirmed_events_body_def is_Exception_def)
next
  case (Inr H)
  show ?thesis
  proof (cases "H = 0")
    case True
    then show ?thesis using assms Inr
      by (auto simp: get_confirmed_events_def get_confirmed_events_body_def)
  next
    case False
    show ?thesis
    proof (cases "new_entries env")
      case (Inl x)
      then show ?thesis using assms Inr False
        by (auto simp: get_confirmed_events_def get_confirmed_events_body_def is_Exception_def)
    next
      case (Inr es)
      show ?thesis
      proof (cases "es = []")
        case True
        then show ?thesis using assms \<open>get_latest_block_number (source env) = Inr H\<close> False Inr
          by (auto simp: get_confirmed_events_def get_confirmed_events_body_def)
      next
        case nonempty: False
        let ?loop = "confirm_loop H (block_confirmations l) es (processed_events l) []"
        have body: "get_confirmed_events_body l env =
                      (fst ?loop, l\<lparr>processed_events := snd ?loop\<rparr>)"
          using \<open>get_latest_block_number (source env) = Inr H\<close> False Inr nonempty
          by (simp add: get_confirmed_events_body_def split: prod.splits)
        have "r = (case fst ?loop of Inl x \<Rightarrow> Inr [] | Inr c \<Rightarrow> Inr c)
              \<and> l' = l\<lparr>processed_events := snd ?loop\<rparr>"
          using assms body confirm_loop_exn [of H "block_confirmations l" es "processed_events l"]
          by (auto simp: get_confirmed_events_def is_Exception_def split: sum.splits)
        then show ?thesis
          using \<open>get_latest_block_number (source env) = Inr H\<close> False Inr by blast
      qed
    qed
  qed
qed

lemma poll_mono:
  assumes "get_confirmed_events l env = (r, l')"
  shows "processed_events l \<subseteq> processed_events l'"
    and "block_confirmations l' = block_confirmations l"
proof -
  from get_confirmed_events_cases [OF assms]
  consider "l' = l"
    | H es where "l' = l\<lparr>processed_events :=
                snd (confirm_loop H (block_confirmations l) es (processed_events l) [])\<rparr>"
    by blast
  then have "processed_events l \<subseteq> processed_events l'
             \<and> block_confirmations l' = block_confirmations l"
  proof cases
    case 1
    then show ?thesis by simp
  next
    case 2
    then show ?thesis
      using confirm_loop_mono [of "processed_events l" H "block_confirmations l" es] by simp
  qed
  then show "processed_events l \<subseteq> processed_events l'"
    and "block_confirmations l' = block_confirmations l"
    by simp_all
qed

lemma poll_new:
  assumes "get_confirmed_events l env = (r, l')"
    and "t \<in> processed_events l'" and "t \<notin> processed_events l"
  shows "\<exists>es ev b H. new_entries env = Inr es \<and> ev \<in> set es \<and> transactionHash ev = Some t
           \<and> blockNumber ev = Some b \<and> get_latest_block_number (source env) = Inr H
           \<and> block_confirmations l \<le> H - b"
proof -
  from get_confirmed_events_cases [OF assms(1)] assms(2,3)
  obtain H es where H: "get_latest_block_number (source env) = Inr H"
    and es: "new_entries env = Inr es"
    and l': "l' = l\<lparr>processed_events :=
                snd (confirm_loop H (block_confirmations l) es (processed_events l) [])\<rparr>"
    by auto
  have "t \<in> snd (confirm_loop H (block_confirmations l) es (processed_events l) [])"
    using assms(2) l' by simp
  from confirm_loop_new [OF this assms(3)] show ?thesis using H es by blast
qed

lemma poll_returned:
  assumes "get_confirmed_events l env = (Inr c, l')"
  shows "distinct (map transactionHash c)"
    and "\<forall>ev\<in>set c. \<exists>t. transactionHash ev = Some t \<and> t \<notin> processed_events l
                         \<and> t \<in> processed_events l'"
    and "\<forall>ev\<in>set c. \<exists>b H. blockNumber ev = Some b
            \<and> get_latest_block_number (source env) = Inr H \<and> block_confirmations l \<le> H - b"
    and "\<forall>es. new_entries env = Inr es \<longrightarrow> subseq c es"
    and "\<forall>x. new_entries env = Inl x \<longrightarrow> c = []"
proof -
  have "c = [] \<or>
        (\<exists>H es. get_latest_block_number (source env) = Inr H \<and> new_entries env = Inr es
           \<and> l' = l\<lparr>processed_events :=
                snd (confirm_loop H (block_confirmations l) es (processed_events l) [])\<rparr>
           \<and> fst (confirm_loop H (block_confirmations l) es (processed_events l) []) = Inr c)"
    using get_confirmed_events_cases [OF assms]
  proof (elim disjE exE conjE)
    assume "Inr c = (Inr [] :: exn + log_receipt list)"
    then show ?thesis by simp
  next
    assume "Inr c = (Inl KeyboardInterrupt :: exn + log_receipt list)"
    then show ?thesis by simp
  next
    fix H es
    assume a: "get_latest_block_number (source env) = Inr H" "new_entries env = Inr es"
      "l' = l\<lparr>processed_events :=
                snd (confirm_loop H (block_confirmations l) es (processed_events l) [])\<rparr>"
      "Inr c = (case fst (confirm_loop H (block_confirmations l) es (processed_events l) [])
                 of Inl x \<Rightarrow> Inr [] | Inr c \<Rightarrow> Inr c)"
    show ?thesis
    proof (cases "fst (confirm_loop H (block_confirmations l) es (processed_events l) [])")
      case (Inl x)
      then show ?thesis using a(4) by simp
    next
      case (Inr c')
      then have "c' = c" using a(4) by simp
      then show ?thesis using a(1,2,3) Inr by blast
    qed
  qed
  then consider "c = []"
    | H es where "get_latest_block_number (source env) = Inr H" "new_entries env = Inr es"
        "l' = l\<lparr>processed_events :=
                snd (confirm_loop H (block_confirmations l) es (processed_events l) [])\<rparr>"
        "fst (confirm_loop H (block_confirmations l) es (processed_events l) []) = Inr c"
    by blast
  then have "distinct (map transactionHash c)
    \<and> (\<forall>ev\<in>set c. \<exists>t. transactionHash ev = Some t \<and> t \<notin> processed_events l
                         \<and> t \<in> processed_events l')
    \<and> (\<forall>ev\<in>set c. \<exists>b H. blockNumber ev = Some b
            \<and> get_latest_block_number (source env) = Inr H \<and> block_confirmations l \<le> H - b)
    \<and> (\<forall>es. new_entries env = Inr es \<longrightarrow> subseq c es)
    \<and> (\<forall>x. new_entries env = Inl x \<longrightarrow> c = [])"
  proof cases
    case 1
    then show ?thesis by simp
  next
    case 2
    note facts = confirm_loop_Inr [OF 2(4)]
    have "\<forall>ev\<in>set c. \<exists>t. transactionHash ev = Some t \<and> t \<notin> processed_events l
                         \<and> t \<in> processed_events l'"
      using facts 2(3) by (fastforce simp: hashes_def)
    then show ?thesis using facts 2(1,2) by auto
  qed
  then show "distinct (map transactionHash c)"
    and "\<forall>ev\<in>set c. \<exists>t. transactionHash ev = Some t \<and> t \<notin> processed_events l
                         \<and> t \<in> processed_events l'"
    and "\<forall>ev\<in>set c. \<exists>b H. blockNumber ev = Some b
            \<and> get_latest_block_number (source env) = Inr H \<and> block_confirmations l \<le> H - b"
    and "\<forall>es. new_entries env = Inr es \<longrightarrow> subseq c es"
    and "\<forall>x. new_entries env = Inl x \<longrightarrow> c = []"
    by blast+
qed

lemma poll_body_completes:
  assumes "fst (get_confirmed_events_body l env) = Inr c"
  shows "get_confirmed_events l env = (Inr c, snd (get_confirmed_events_body l env))"
    and "processed_events (snd (get_confirmed_events_body l env)) =
           processed_events l \<union> hashes c"
proof -
  show step: "get_confirmed_events l env = (Inr c, snd (get_confirmed_events_body l env))"
    using assms by (cases "get_confirmed_events_body l env") (simp add: get_confirmed_events_def)
  have same: "snd (get_confirmed_events l env) = snd (get_confirmed_events_body l env)"
    using step by simp
  from get_confirmed_events_cases [OF step]
  consider "snd (get_confirmed_events_body l env) = l" "c = []"
    | H es where "get_latest_block_number (source env) = Inr H" "H \<noteq> 0"
        "new_entries env = Inr es"
        "snd (get_confirmed_events_body l env) = l\<lparr>processed_events :=
                snd (confirm_loop H (block_confirmations l) es (processed_events l) [])\<rparr>"
    by auto
  then show "processed_events (snd (get_confirmed_events_body l env)) =
           processed_events l \<union> hashes c"
  proof cases
    case 1
    then show ?thesis by (simp add: hashes_def)
  next
    case 2
    show ?thesis
    proof (cases "es = []")
      case True
      then show ?thesis using assms 2
        by (simp add: get_confirmed_events_body_def hashes_def)
    next
      case False
      then have "fst (confirm_loop H (block_confirmations l) es (processed_events l) []) = Inr c"
        using assms 2(1,2,3) by (simp add: get_confirmed_events_body_def split: prod.splits)
      from confirm_loop_Inr [OF this] show ?thesis using 2(4) by simp
    qed
  qed
qed

lemma poll_outputs_Cons:
  "poll_outputs l (env # envs) =
     (case fst (get_confirmed_events l env) of
        Inl x \<Rightarrow> []
      | Inr c \<Rightarrow> c # poll_outputs (snd (get_confirmed_events l env)) envs)"
  by (cases "get_confirmed_events l env") (simp split: sum.splits)

lemma listener_after_Cons:
  "listener_after l (env # envs) =
     (case fst (get_confirmed_events l env) of
        Inl x \<Rightarrow> snd (get_confirmed_events l env)
      | Inr c \<Rightarrow> listener_after (snd (get_confirmed_events l env)) envs)"
  by (cases "get_confirmed_events l env") (simp split: sum.splits)

lemma poll_outputs_fresh:
  "later \<in> set (poll_outputs l envs) \<Longrightarrow> ev \<in> set later \<Longrightarrow>
   \<exists>t. transactionHash ev = Some t \<and> t \<notin> processed_events l"
proof (induction envs arbitrary: l)
  case Nil
  then show ?case by simp
next
  case (Cons env envs)
  obtain r l' where step: "get_confirmed_events l env = (r, l')"
    by (cases "get_confirmed_events l env")
  show ?case
  proof (cases r)
    case (Inl x)
    then show ?thesis using Cons.prems step by simp
  next
    case (Inr c)
    from Cons.prems(1) step Inr
    consider "later = c" | "later \<in> set (poll_outputs l' envs)" by auto
    then show ?thesis
    proof cases
      case 1
      then show ?thesis using poll_returned(2) [of l env c l'] step Inr Cons.prems(2) by blast
    next
      case 2
      from Cons.IH [OF 2 Cons.prems(2)] show ?thesis
        using poll_mono(1) [OF step] by blast
    qed
  qed
qed

lemma listener_after_mono:
  "processed_events l \<subseteq> processed_events (listener_after l envs)"
proof (induction envs arbitrary: l)
  case Nil
  show ?case by simp
next
  case (Cons env envs)
  obtain r l' where step: "get_confirmed_events l env = (r, l')"
    by (cases "get_confirmed_events l env")
  show ?case
    using poll_mono(1) [OF step] Cons.IH [of l'] step
    by (cases r) auto
qed





lemmas poll_defs = healthy_polls_def healthy_poll_def reachable_def
  get_confirmed_events_def get_confirmed_events_body_def get_latest_block_number_def
  is_Exception_def


section \<open>Confirmation gating (C2)\<close>




section \<open>Hash deduplication (C6)\<close>

text \<open>
  C6 says that a transaction hash enters \<open>processed_events\<close> at the moment its event is
  first returned as confirmed. The loop adds the hash when it admits the event; when a
  later entry of the same batch raises, the \<open>except\<close> handler returns the empty list and
  the hash stays in the set. With the deposit followed by an entry without a block number,
  at height 112, the poll returns nothing, the hash of the deposit is in the set, and the
  deposit is returned by no later poll.
\<close>

theorem hash_recorded_event_not_returned:
  "get_confirmed_events listener0 (healthy_poll 112 [deposit, pending_entry]) =
     (Inr [], listener_seen_deposit)
   \<and> transactionHash deposit = Some 0xA1
   \<and> processed_events listener_seen_deposit = {0xA1}
   \<and> poll_outputs listener_seen_deposit [healthy_poll 113 [deposit], healthy_poll 130 [deposit]]
        = [[], []]"
  by (simp add: poll_defs listener0_def listener_seen_deposit_def deposit_def pending_entry_def)

text \<open>
  C6, amended: no poll, then or later, takes a hash out of \<open>processed_events\<close>. A hash
  enters the set only when the loop admits an entry that carries it: a delivered entry
  whose block has the confirmation depth at the height of that poll. When the \<open>try\<close>
  body of a poll completes, the hashes that entered are exactly those of the events it
  returns, each returned once. Every event that a poll returns has a hash that was not in
  the set before; so, whatever the later polls are delivered, no event whose transaction
  hash is in the set is returned again.
\<close>

theorem confirmation_state_invariant:
  assumes "get_confirmed_events l env = (r, l')"
  shows "processed_events l \<subseteq> processed_events l'
       \<and> (\<forall>envs. processed_events l' \<subseteq> processed_events (listener_after l' envs))
       \<and> (\<forall>t. t \<in> processed_events l' \<and> t \<notin> processed_events l \<longrightarrow>
             (\<exists>es ev b H. new_entries env = Inr es \<and> ev \<in> set es
                \<and> transactionHash ev = Some t \<and> blockNumber ev = Some b
                \<and> get_latest_block_number (source env) = Inr H
                \<and> block_confirmations l \<le> H - b))
       \<and> (\<forall>c. fst (get_confirmed_events_body l env) = Inr c \<longrightarrow>
             r = Inr c \<and> processed_events l' = processed_events l \<union> hashes c
             \<and> distinct (map transactionHash c))
       \<and> (\<forall>c. r = Inr c \<longrightarrow>
             (\<forall>ev\<in>set c. \<exists>t. transactionHash ev = Some t \<and> t \<notin> processed_events l))
       \<and> (\<forall>envs. \<forall>later\<in>set (poll_outputs l' envs). \<forall>ev\<in>set later.
             \<exists>t. transactionHash ev = Some t \<and> t \<notin> processed_events l')"
proof -
  have c1: "processed_events l \<subseteq> processed_events l'"
    using poll_mono(1) [OF assms] .
  have c2: "\<forall>envs. processed_events l' \<subseteq> processed_events (listener_after l' envs)"
    using listener_after_mono by blast
  have c3: "\<forall>t. t \<in> processed_events l' \<and> t \<notin> processed_events l \<longrightarrow>
             (\<exists>es ev b H. new_entries env = Inr es \<and> ev \<in> set es
                \<and> transactionHash ev = Some t \<and> blockNumber ev = Some b
                \<and> get_latest_block_number (source env) = Inr H
                \<and> block_confirmations l \<le> H - b)"
    using poll_new [OF assms] by blast
  have c4': "r = Inr c \<and> processed_events l' = processed_events l \<union> hashes c
             \<and> distinct (map transactionHash c)"
    if body: "fst (get_confirmed_events_body l env) = Inr c" for c
  proof -
    from poll_body_completes [OF body] assms
    have r: "r = Inr c" and l': "l' = snd (get_confirmed_events_body l env)"
      and set: "processed_events (snd (get_confirmed_events_body l env)) =
                  processed_events l \<union> hashes c"
      by simp_all
    have "get_confirmed_events l env = (Inr c, l')" using assms r by simp
    from poll_returned(1) [OF this] show ?thesis using r l' set by simp
  qed
  have c4: "\<forall>c. fst (get_confirmed_events_body l env) = Inr c \<longrightarrow>
             r = Inr c \<and> processed_events l' = processed_events l \<union> hashes c
             \<and> distinct (map transactionHash c)"
    using c4' by (intro allI impI)
  have c5': "\<forall>ev\<in>set c. \<exists>t. transactionHash ev = Some t \<and> t \<notin> processed_events l"
    if "r = Inr c" for c
    using poll_returned(2) [of l env c l'] assms that by blast
  have c5: "\<forall>c. r = Inr c \<longrightarrow>
             (\<forall>ev\<in>set c. \<exists>t. transactionHash ev = Some t \<and> t \<notin> processed_events l)"
    using c5' by (intro allI impI)
  have c6: "\<forall>envs. \<forall>later\<in>set (poll_outputs l' envs). \<forall>ev\<in>set later.
             \<exists>t. transactionHash ev = Some t \<and> t \<notin> processed_events l'"
    using poll_outputs_fresh by blast
  show ?thesis
    by (intro conjI) (rule c1 c2 c3 c4 c5 c6)+
qed

text \<open>
  The deposit is confirmed at height 112; redelivered at height 113, it is not returned.
\<close>

theorem confirmation_state_invariant_witness:
  "get_confirmed_events listener0 (healthy_poll 112 [deposit]) =
     (Inr [deposit], listener_seen_deposit)
   \<and> fst (get_confirmed_events_body listener0 (healthy_poll 112 [deposit])) = Inr [deposit]
   \<and> processed_events listener_seen_deposit = processed_events listener0 \<union> hashes [deposit]
   \<and> poll_outputs listener_seen_deposit [healthy_poll 113 [deposit]] = [[]]"
proof -
  have h: "get_confirmed_events listener0 (healthy_poll 112 [deposit]) =
     (Inr [deposit], listener_seen_deposit)"
    by (simp add: poll_defs listener0_def listener_seen_deposit_def deposit_def)
  have b: "fst (get_confirmed_events_body listener0 (healthy_poll 112 [deposit])) =
             Inr [deposit]"
    by (simp add: poll_defs listener0_def deposit_def)
  have later: "poll_outputs listener_seen_deposit [healthy_poll 113 [deposit]] = [[]]"
    by (simp add: poll_defs listener0_def listener_seen_deposit_def deposit_def)
  have "processed_events listener_seen_deposit = processed_events listener0 \<union> hashes [deposit]"
    using confirmation_state_invariant [OF h] b by blast
  then show ?thesis
    using h b later by simp
qed

section \<open>Errors while polling (C7)\<close>

text \<open>
  C7: no \<open>Exception\<close> leaves \<open>get_confirmed_events\<close>. Whenever the body of its
  \<open>try\<close> raises one, in the height query, in the log fetch (with its decoding) or
  inside the loop over the entries, the poll returns the empty list. When the node is
  unreachable (not connected, and not after the reconnection attempt either), when the
  height query raises or when the log fetch raises, the listener is as it was. A batch
  with an entry that has no transaction hash gives the empty list.
  \<open>KeyboardInterrupt\<close> is not an \<open>Exception\<close>; it is the signal that stops the
  relayer.
\<close>

theorem get_confirmed_events_never_raises:
  "(\<forall>x. is_Exception x \<longrightarrow> fst (get_confirmed_events l env) \<noteq> Inl x)
   \<and> (\<forall>x. is_Exception x \<and> fst (get_confirmed_events_body l env) = Inl x \<longrightarrow>
          fst (get_confirmed_events l env) = Inr [])
   \<and> (\<not> connected_first (source env) \<and> \<not> connected_retry (source env) \<longrightarrow>
          get_confirmed_events l env = (Inr [], l))
   \<and> (\<forall>x. is_Exception x \<and> get_latest_block_number (source env) = Inl x \<longrightarrow>
          get_confirmed_events l env = (Inr [], l))
   \<and> (\<forall>x. is_Exception x \<and> new_entries env = Inl x
            \<and> returns (get_latest_block_number (source env)) \<longrightarrow>
          get_confirmed_events l env = (Inr [], l))
   \<and> (\<forall>H es. get_latest_block_number (source env) = Inr H \<and> new_entries env = Inr es
            \<and> (\<exists>ev\<in>set es. transactionHash ev = None) \<longrightarrow>
          fst (get_confirmed_events l env) = Inr [])"
proof -
  have c1: "\<forall>x. is_Exception x \<longrightarrow> fst (get_confirmed_events l env) \<noteq> Inl x"
    by (cases "get_confirmed_events_body l env")
       (auto simp: get_confirmed_events_def split: sum.splits)
  have c2: "\<forall>x. is_Exception x \<and> fst (get_confirmed_events_body l env) = Inl x \<longrightarrow>
          fst (get_confirmed_events l env) = Inr []"
    by (cases "get_confirmed_events_body l env")
       (auto simp: get_confirmed_events_def split: sum.splits)
  have c3: "\<not> connected_first (source env) \<and> \<not> connected_retry (source env) \<longrightarrow>
          get_confirmed_events l env = (Inr [], l)"
    by (simp add: get_confirmed_events_def get_confirmed_events_body_def
          get_latest_block_number_def)
  have c4: "\<forall>x. is_Exception x \<and> get_latest_block_number (source env) = Inl x \<longrightarrow>
          get_confirmed_events l env = (Inr [], l)"
    by (simp add: get_confirmed_events_def get_confirmed_events_body_def)
  have c5: "\<forall>x. is_Exception x \<and> new_entries env = Inl x
            \<and> returns (get_latest_block_number (source env)) \<longrightarrow>
          get_confirmed_events l env = (Inr [], l)"
    by (auto simp: get_confirmed_events_def get_confirmed_events_body_def returns_def
          split: sum.splits)
  have c6: "fst (get_confirmed_events l env) = Inr []"
    if H: "get_latest_block_number (source env) = Inr H" and es: "new_entries env = Inr es"
      and ev: "\<exists>ev\<in>set es. transactionHash ev = None" for H es
  proof (cases "H = 0")
    case True
    then show ?thesis using H
      by (simp add: get_confirmed_events_def get_confirmed_events_body_def)
  next
    case False
    have nonempty: "es \<noteq> []" using ev by auto
    obtain P' where loop: "confirm_loop H (block_confirmations l) es (processed_events l) [] =
                      (Inl OtherException, P')"
      using confirm_loop_null_hash [OF ev, of H "block_confirmations l" "processed_events l"]
      by (cases "confirm_loop H (block_confirmations l) es (processed_events l) []") simp
    show ?thesis
      using H es False nonempty loop
      by (simp add: get_confirmed_events_def get_confirmed_events_body_def is_Exception_def)
  qed
  show ?thesis using c1 c2 c3 c4 c5 c6 by blast
qed

theorem get_confirmed_events_never_raises_witness:
  "is_Exception OtherException
   \<and> get_confirmed_events listener0 height_query_raises = (Inr [], listener0)
   \<and> \<not> connected_first (source unreachable_poll) \<and> \<not> connected_retry (source unreachable_poll)
   \<and> get_confirmed_events listener0 unreachable_poll = (Inr [], listener0)
   \<and> new_entries log_fetch_raises = Inl RequestException
   \<and> get_confirmed_events listener0 log_fetch_raises = (Inr [], listener0)
   \<and> fst (get_confirmed_events_body listener0 (healthy_poll 112 [deposit, pending_entry]))
        = Inl OtherException
   \<and> get_confirmed_events listener0 (healthy_poll 112 [deposit, pending_entry])
        = (Inr [], listener_seen_deposit)
   \<and> fst (get_confirmed_events listener0 (healthy_poll 112 [deposit, null_hash_entry])) = Inr []"
proof -
  have e: "is_Exception OtherException" "is_Exception RequestException"
    by (simp_all add: is_Exception_def)
  have b: "get_latest_block_number (source height_query_raises) = Inl OtherException"
    by (simp add: height_query_raises_def get_latest_block_number_def)
  have u: "\<not> connected_first (source unreachable_poll)"
          "\<not> connected_retry (source unreachable_poll)"
    by (simp_all add: unreachable_poll_def)
  have f: "new_entries log_fetch_raises = Inl RequestException"
          "returns (get_latest_block_number (source log_fetch_raises))"
    by (simp_all add: log_fetch_raises_def reachable_def get_latest_block_number_def returns_def)
  have p: "fst (get_confirmed_events_body listener0 (healthy_poll 112 [deposit, pending_entry]))
        = Inl OtherException"
    by (simp add: poll_defs listener0_def deposit_def pending_entry_def)
  have q: "get_confirmed_events listener0 (healthy_poll 112 [deposit, pending_entry])
        = (Inr [], listener_seen_deposit)"
    by (simp add: poll_defs listener0_def listener_seen_deposit_def deposit_def
          pending_entry_def)
  have n: "get_latest_block_number (source (healthy_poll 112 [deposit, null_hash_entry]))
             = Inr 112"
          "new_entries (healthy_poll 112 [deposit, null_hash_entry])
             = Inr [deposit, null_hash_entry]"
          "\<exists>ev\<in>set [deposit, null_hash_entry]. transactionHash ev = None"
    by (simp_all add: healthy_poll_def reachable_def get_latest_block_number_def
          null_hash_entry_def)
  show ?thesis
    using e b u f p q n
      get_confirmed_events_never_raises [of listener0 height_query_raises]
      get_confirmed_events_never_raises [of listener0 unreachable_poll]
      get_confirmed_events_never_raises [of listener0 log_fetch_raises]
      get_confirmed_events_never_raises [of listener0 "healthy_poll 112 [deposit, pending_entry]"]
      get_confirmed_events_never_raises [of listener0 "healthy_poll 112 [deposit, null_hash_entry]"]
    by simp
qed

section \<open>Order of the returned events (C9)\<close>

text \<open>
  C9 says that the returned events are sorted by block number, then by log index. The loop
  appends each admitted event to \<open>confirmed_events\<close> as it meets it and nothing sorts the
  list: when the log fetch delivers the deposit of block 101 before the one of block 100,
  both confirmed, they are returned in that order.
\<close>

theorem confirmed_events_not_sorted:
  "get_confirmed_events listener0 (healthy_poll 200 [later_deposit, deposit]) =
     (Inr [later_deposit, deposit], listener0\<lparr>processed_events := {0xA1, 0xA2}\<rparr>)
   \<and> map blockNumber [later_deposit, deposit] = [Some 101, Some 100]
   \<and> \<not> sorted (map (the \<circ> blockNumber) [later_deposit, deposit])"
  by (simp add: poll_defs listener0_def deposit_def later_deposit_def)

text \<open>
  C9, amended: the returned events are in arrival order; the returned list is a
  subsequence of the entries as the log fetch delivered them (and is empty when the log
  fetch raised).
\<close>

theorem confirmed_events_in_arrival_order:
  assumes "get_confirmed_events l env = (Inr confirmed, l')"
  shows "(\<forall>es. new_entries env = Inr es \<longrightarrow> subseq confirmed es)
       \<and> (\<forall>x. new_entries env = Inl x \<longrightarrow> confirmed = [])"
  using poll_returned(4,5) [OF assms] by blast

theorem confirmed_events_in_arrival_order_witness:
  "get_confirmed_events listener0 (healthy_poll 200 [later_deposit, deposit]) =
     (Inr [later_deposit, deposit], listener0\<lparr>processed_events := {0xA1, 0xA2}\<rparr>)
   \<and> new_entries (healthy_poll 200 [later_deposit, deposit]) = Inr [later_deposit, deposit]
   \<and> subseq [later_deposit, deposit] [later_deposit, deposit]"
proof -
  have h: "get_confirmed_events listener0 (healthy_poll 200 [later_deposit, deposit]) =
     (Inr [later_deposit, deposit], listener0\<lparr>processed_events := {0xA1, 0xA2}\<rparr>)"
    by (simp add: poll_defs listener0_def deposit_def later_deposit_def)
  have n: "new_entries (healthy_poll 200 [later_deposit, deposit]) = Inr [later_deposit, deposit]"
    by (simp add: healthy_poll_def)
  show ?thesis
    using h n confirmed_events_in_arrival_order [OF h] by simp
qed

section \<open>One relay call and successive relay calls\<close>

lemma release_steps_hd:
  "snd (release_steps p env event) \<noteq> [] \<and>
   hd (snd (release_steps p env event)) = GetTransactionCount (relayer_address p)"
  by (simp add: release_steps_def Let_def split: sum.splits)

lemma first_raise_None_iff: "first_raise env = None \<longleftrightarrow> all_ok env"
  by (auto simp: first_raise_def all_ok_def returns_def split: sum.splits)

lemma release_steps_first_raise:
  "first_raise env = Some x \<Longrightarrow> fst (release_steps p env event) = Inl x"
  by (auto simp: first_raise_def release_steps_def Let_def split: sum.splits)

lemma release_steps_all_ok:
  "all_ok env \<Longrightarrow> \<exists>h. fst (release_steps p env event) = Inr h"
  by (auto simp: all_ok_def returns_def release_steps_def Let_def split: sum.splits)

lemma release_steps_sends:
  "length (filter is_send (snd (release_steps p env event))) =
     (if reaches_broadcast env then 1 else 0)"
  by (auto simp: release_steps_def reaches_broadcast_def returns_def is_send_def Let_def
        split: sum.splits)

lemma release_steps_send_tx:
  "SendRawTransaction tx \<in> set (snd (release_steps p env event)) \<Longrightarrow>
   tx_sourceTransactionId tx = transactionId (args event)
   \<and> tx_recipient tx = recipient (args event) \<and> tx_amount tx = amount (args event)"
  by (auto simp: release_steps_def built_tx_def Let_def split: sum.splits)

lemma release_steps_reaches_broadcast:
  "reaches_broadcast env \<Longrightarrow>
   \<exists>tx. SendRawTransaction tx \<in> set (snd (release_steps p env event))"
  by (auto simp: release_steps_def reaches_broadcast_def returns_def Let_def split: sum.splits)

lemma all_ok_reaches_broadcast: "all_ok env \<Longrightarrow> reaches_broadcast env"
  by (simp add: all_ok_def reaches_broadcast_def)

lemma process_deposit_event_skip:
  "transactionId (args event) \<in> processed_source_tx_ids p \<Longrightarrow>
   process_deposit_event p env event = (Inr True, p, [])"
  by (simp add: process_deposit_event_def)

lemma process_deposit_event_fresh:
  "transactionId (args event) \<notin> processed_source_tx_ids p \<Longrightarrow>
   process_deposit_event p env event =
     (case fst (release_steps p env event) of
        Inl x \<Rightarrow> (if is_Exception x then Inr False else Inl x, p, snd (release_steps p env event))
      | Inr h \<Rightarrow> (Inr True,
                  p\<lparr>processed_source_tx_ids :=
                      insert (transactionId (args event)) (processed_source_tx_ids p)\<rparr>,
                  snd (release_steps p env event)))"
  by (cases "release_steps p env event") (simp add: process_deposit_event_def split: sum.splits)

lemma process_deposit_event_ok:
  assumes "transactionId (args event) \<notin> processed_source_tx_ids p" and "all_ok env"
  shows "process_deposit_event p env event =
           (Inr True,
            p\<lparr>processed_source_tx_ids :=
                insert (transactionId (args event)) (processed_source_tx_ids p)\<rparr>,
            snd (release_steps p env event))"
  using release_steps_all_ok [OF assms(2), of p event]
  by (auto simp: process_deposit_event_fresh [OF assms(1)])

lemma process_deposit_event_raise:
  assumes "transactionId (args event) \<notin> processed_source_tx_ids p"
    and "first_raise env = Some x"
  shows "process_deposit_event p env event =
           (if is_Exception x then Inr False else Inl x, p, snd (release_steps p env event))"
  using release_steps_first_raise [OF assms(2), of p event]
  by (simp add: process_deposit_event_fresh [OF assms(1)])

lemma relay_Submitted_iff:
  "relay p env event = Inr Submitted \<longleftrightarrow>
     transactionId (args event) \<notin> processed_source_tx_ids p \<and> all_ok env"
proof (cases "transactionId (args event) \<in> processed_source_tx_ids p")
  case True
  then show ?thesis
    by (simp add: process_deposit_event_skip relay_def relay_result_of_def)
next
  case False
  show ?thesis
  proof (cases "first_raise env")
    case None
    then have ok: "all_ok env" by (simp add: first_raise_None_iff)
    show ?thesis
      using False ok release_steps_hd [of p env event]
      by (simp add: process_deposit_event_ok [OF False ok] relay_def relay_result_of_def)
  next
    case (Some x)
    then have "\<not> all_ok env" using first_raise_None_iff [of env] by simp
    then show ?thesis
      using False
      by (simp add: process_deposit_event_raise [OF False Some] relay_def relay_result_of_def)
  qed
qed

lemma relay_Skipped_iff:
  "relay p env event = Inr Skipped \<longleftrightarrow> transactionId (args event) \<in> processed_source_tx_ids p"
proof (cases "transactionId (args event) \<in> processed_source_tx_ids p")
  case True
  then show ?thesis
    by (simp add: process_deposit_event_skip relay_def relay_result_of_def)
next
  case False
  show ?thesis
    using False release_steps_hd [of p env event]
    by (auto simp: process_deposit_event_fresh relay_def relay_result_of_def split: sum.splits)
qed

lemma processor_after:
  "fst (snd (process_deposit_event p env event)) =
     (if transactionId (args event) \<notin> processed_source_tx_ids p \<and> all_ok env
      then p\<lparr>processed_source_tx_ids :=
               insert (transactionId (args event)) (processed_source_tx_ids p)\<rparr>
      else p)"
proof (cases "transactionId (args event) \<in> processed_source_tx_ids p")
  case True
  then show ?thesis by (simp add: process_deposit_event_skip)
next
  case False
  show ?thesis
  proof (cases "first_raise env")
    case None
    then have ok: "all_ok env" by (simp add: first_raise_None_iff)
    show ?thesis using False ok by (simp add: process_deposit_event_ok [OF False ok])
  next
    case (Some x)
    then have "\<not> all_ok env" using first_raise_None_iff [of env] by simp
    then show ?thesis by (simp add: process_deposit_event_raise [OF False Some])
  qed
qed

lemma calls_of_fresh:
  "transactionId (args event) \<notin> processed_source_tx_ids p \<Longrightarrow>
   snd (snd (process_deposit_event p env event)) = snd (release_steps p env event)"
  by (simp add: process_deposit_event_fresh split: sum.splits)

lemma relay_seq_Cons:
  "relay_seq p ((env, event) # rest) =
     (relay p env event, snd (snd (process_deposit_event p env event)))
       # relay_seq (fst (snd (process_deposit_event p env event))) rest"
  by (cases "process_deposit_event p env event") (simp add: relay_def)

lemma relay_seq_length: "length (relay_seq p calls) = length calls"
  by (induction calls arbitrary: p) (auto simp: relay_seq_Cons simp del: relay_seq.simps(2))

lemma relay_seq_seen:
  assumes "\<forall>c\<in>set calls. transactionId (args (snd c)) = x" and "x \<in> processed_source_tx_ids p"
  shows "relay_seq p calls = map (\<lambda>c. (Inr Skipped, [])) calls"
  using assms
proof (induction calls arbitrary: p)
  case Nil
  show ?case by simp
next
  case (Cons c calls)
  obtain env event where c: "c = (env, event)" by (cases c)
  have seen: "transactionId (args event) \<in> processed_source_tx_ids p"
    using Cons.prems c by simp
  have "relay_seq p (c # calls) = (Inr Skipped, []) # relay_seq p calls"
    using seen by (simp add: c process_deposit_event_skip relay_result_of_def)
  then show ?case using Cons.IH [of p] Cons.prems by simp
qed

lemma relay_seq_member:
  "r \<in> set (relay_seq p calls) \<Longrightarrow>
   \<exists>p' env event. (env, event) \<in> set calls
      \<and> r = (relay p' env event, snd (snd (process_deposit_event p' env event)))"
proof (induction calls arbitrary: p)
  case Nil
  then show ?case by simp
next
  case (Cons c calls)
  obtain env event where c: "c = (env, event)" by (cases c)
  from Cons.prems
  consider "r = (relay p env event, snd (snd (process_deposit_event p env event)))"
    | "r \<in> set (relay_seq (fst (snd (process_deposit_event p env event))) calls)"
    by (auto simp: c relay_seq_Cons simp del: relay_seq.simps(2))
  then show ?case
  proof cases
    case 1
    then show ?thesis using c by auto
  next
    case 2
    from Cons.IH [OF 2] show ?thesis by auto
  qed
qed

lemma submitted_count_eq:
  assumes "\<forall>c\<in>set calls. transactionId (args (snd c)) = x"
  shows "submitted_count (relay_seq p calls) =
           (if x \<notin> processed_source_tx_ids p \<and> (\<exists>c\<in>set calls. all_ok (fst c)) then 1 else 0)"
  using assms
proof (induction calls arbitrary: p)
  case Nil
  show ?case by (simp add: submitted_count_def)
next
  case (Cons c calls)
  obtain env event where c: "c = (env, event)" by (cases c)
  have id: "transactionId (args event) = x" using Cons.prems c by simp
  have rest: "\<forall>c\<in>set calls. transactionId (args (snd c)) = x" using Cons.prems by simp
  let ?p' = "fst (snd (process_deposit_event p env event))"
  have count: "submitted_count (relay_seq p (c # calls)) =
      (if relay p env event = Inr Submitted then 1 else 0) + submitted_count (relay_seq ?p' calls)"
    by (simp add: c relay_seq_Cons submitted_count_def del: relay_seq.simps(2))
  show ?case
  proof (cases "x \<notin> processed_source_tx_ids p \<and> all_ok env")
    case True
    then have "relay p env event = Inr Submitted" by (simp add: relay_Submitted_iff id)
    moreover have "x \<in> processed_source_tx_ids ?p'"
      using True by (simp add: processor_after id)
    ultimately show ?thesis
      using count Cons.IH [OF rest, of ?p'] True c by simp
  next
    case False
    then have "relay p env event \<noteq> Inr Submitted" by (simp add: relay_Submitted_iff id)
    moreover have "?p' = p" using False by (auto simp: processor_after id)
    ultimately show ?thesis
      using count Cons.IH [OF rest, of p] False c by auto
  qed
qed

lemma after_submitted_skipped:
  assumes "\<forall>c\<in>set calls. transactionId (args (snd c)) = x"
    and "i < j" and "j < length calls" and "fst (relay_seq p calls ! i) = Inr Submitted"
  shows "relay_seq p calls ! j = (Inr Skipped, [])"
  using assms
proof (induction calls arbitrary: p i j)
  case Nil
  then show ?case by simp
next
  case (Cons c calls)
  obtain env event where c: "c = (env, event)" by (cases c)
  have id: "transactionId (args event) = x" using Cons.prems c by simp
  have rest: "\<forall>c\<in>set calls. transactionId (args (snd c)) = x" using Cons.prems by simp
  let ?p' = "fst (snd (process_deposit_event p env event))"
  obtain j' where j: "j = Suc j'" and j': "j' < length calls"
    using Cons.prems(2,3) by (cases j) auto
  have at_j: "relay_seq p (c # calls) ! j = relay_seq ?p' calls ! j'"
    by (simp add: c j relay_seq_Cons del: relay_seq.simps(2))
  show ?case
  proof (cases i)
    case 0
    then have "relay p env event = Inr Submitted"
      using Cons.prems(4) by (simp add: c relay_seq_Cons del: relay_seq.simps(2))
    then have "x \<in> processed_source_tx_ids ?p'"
      by (simp add: relay_Submitted_iff processor_after id)
    from relay_seq_seen [OF rest this] show ?thesis
      using at_j j' by simp
  next
    case (Suc i')
    have "fst (relay_seq ?p' calls ! i') = Inr Submitted"
      using Cons.prems(4) by (simp add: c Suc relay_seq_Cons del: relay_seq.simps(2))
    moreover have "i' < j'" using Cons.prems(2) Suc j by simp
    ultimately show ?thesis
      using Cons.IH [OF rest _ j'] at_j by simp
  qed
qed

lemma broadcasts_Cons:
  "broadcasts (relay_seq p ((env, event) # rest)) =
     filter is_send (snd (snd (process_deposit_event p env event)))
       @ broadcasts (relay_seq (fst (snd (process_deposit_event p env event))) rest)"
  by (simp add: relay_seq_Cons broadcasts_def del: relay_seq.simps(2))

lemma broadcasts_count:
  assumes "\<forall>c\<in>set calls. transactionId (args (snd c)) = x"
  shows "length (broadcasts (relay_seq p calls)) =
           (if x \<in> processed_source_tx_ids p then 0
            else length (filter (\<lambda>c. reaches_broadcast (fst c))
                           (takeWhile (\<lambda>c. \<not> all_ok (fst c)) calls))
                 + (if \<exists>c\<in>set calls. all_ok (fst c) then 1 else 0))"
  using assms
proof (induction calls arbitrary: p)
  case Nil
  show ?case by (simp add: broadcasts_def)
next
  case (Cons c calls)
  obtain env event where c: "c = (env, event)" by (cases c)
  have id: "transactionId (args event) = x" using Cons.prems c by simp
  have rest: "\<forall>c\<in>set calls. transactionId (args (snd c)) = x" using Cons.prems by simp
  let ?p' = "fst (snd (process_deposit_event p env event))"
  show ?case
  proof (cases "x \<in> processed_source_tx_ids p")
    case True
    have "relay_seq p (c # calls) = map (\<lambda>c. (Inr Skipped, [])) (c # calls)"
      using relay_seq_seen [OF Cons.prems True] .
    then have "broadcasts (relay_seq p (c # calls)) = []"
      by (simp add: broadcasts_def del: relay_seq.simps(2))
    then show ?thesis using True by simp
  next
    case False
    then have fresh: "transactionId (args event) \<notin> processed_source_tx_ids p"
      using id by simp
    have sends: "length (filter is_send (snd (snd (process_deposit_event p env event)))) =
                   (if reaches_broadcast env then 1 else 0)"
      using calls_of_fresh [OF fresh] release_steps_sends [of p env event] by simp
    show ?thesis
    proof (cases "all_ok env")
      case True
      then have "x \<in> processed_source_tx_ids ?p'"
        using False by (simp add: processor_after id)
      then have "length (broadcasts (relay_seq ?p' calls)) = 0"
        using Cons.IH [OF rest, of ?p'] by simp
      then show ?thesis
        using sends True False all_ok_reaches_broadcast [OF True]
        by (simp add: c broadcasts_Cons del: relay_seq.simps(2))
    next
      case not_ok: False
      then have "?p' = p" by (simp add: processor_after)
      then show ?thesis
        using sends not_ok False Cons.IH [OF rest, of p]
        by (simp add: c broadcasts_Cons del: relay_seq.simps(2))
    qed
  qed
qed

lemma broadcasts_carry_id:
  assumes "\<forall>c\<in>set calls. transactionId (args (snd c)) = x"
    and "b \<in> set (broadcasts (relay_seq p calls))"
  shows "\<exists>tx. b = SendRawTransaction tx \<and> tx_sourceTransactionId tx = x"
proof -
  from assms(2) obtain r where r: "r \<in> set (relay_seq p calls)" and b: "b \<in> set (snd r)"
    and send: "is_send b"
    by (auto simp: broadcasts_def)
  from relay_seq_member [OF r] obtain p' env event where
    mem: "(env, event) \<in> set calls"
    and r_eq: "r = (relay p' env event, snd (snd (process_deposit_event p' env event)))"
    by blast
  have id: "transactionId (args event) = x" using assms(1) mem by auto
  obtain tx where tx: "b = SendRawTransaction tx"
    using send by (cases b) (simp_all add: is_send_def)
  have "transactionId (args event) \<notin> processed_source_tx_ids p'"
    using b r_eq by (auto simp: process_deposit_event_skip)
  then have "SendRawTransaction tx \<in> set (snd (release_steps p' env event))"
    using b r_eq tx calls_of_fresh by simp
  from release_steps_send_tx [OF this] show ?thesis using tx id by simp
qed

lemmas relay_defs = processor0_def processor_done_def dest_ok_def nonce_raises_def
  gas_price_raises_def build_raises_def estimate_gas_raises_def sign_raises_def
  send_raises_def deposit_def process_deposit_event_def release_steps_def built_tx_def
  relay_def relay_result_of_def is_Exception_def Let_def

section \<open>The boolean result of a relay call (C10)\<close>

text \<open>
  C10: for an event whose id is already in \<open>processed_source_tx_ids\<close>,
  \<open>process_deposit_event\<close> returns \<open>True\<close>, makes no web3 call and leaves the
  processor as it was; a first relay whose six steps all succeed returns \<open>True\<close> as
  well, after one \<open>send_raw_transaction\<close>, with the id added to the set. When the id
  is not in the set and the first step that raises raises an \<open>Exception\<close>, the result
  is \<open>False\<close> and the processor is as it was. So \<open>True\<close> is returned exactly when the
  id was in the set or every step succeeded, and \<open>False\<close> exactly when a step failed.
\<close>

theorem skip_returns_True_like_success:
  "(transactionId (args event) \<in> processed_source_tx_ids p \<longrightarrow>
      process_deposit_event p env event = (Inr True, p, [])
      \<and> relay p env event = Inr Skipped)
   \<and> (transactionId (args event) \<notin> processed_source_tx_ids p \<and> all_ok env \<longrightarrow>
      fst (process_deposit_event p env event) = Inr True
      \<and> fst (snd (process_deposit_event p env event)) =
          p\<lparr>processed_source_tx_ids :=
              insert (transactionId (args event)) (processed_source_tx_ids p)\<rparr>
      \<and> length (filter is_send (snd (snd (process_deposit_event p env event)))) = 1
      \<and> relay p env event = Inr Submitted)
   \<and> (transactionId (args event) \<notin> processed_source_tx_ids p
        \<and> (\<exists>x. first_raise env = Some x \<and> is_Exception x) \<longrightarrow>
      fst (process_deposit_event p env event) = Inr False
      \<and> fst (snd (process_deposit_event p env event)) = p)
   \<and> (fst (process_deposit_event p env event) = Inr True \<longleftrightarrow>
        transactionId (args event) \<in> processed_source_tx_ids p \<or> all_ok env)
   \<and> (fst (process_deposit_event p env event) = Inr False \<longleftrightarrow>
        transactionId (args event) \<notin> processed_source_tx_ids p
        \<and> (\<exists>x. first_raise env = Some x \<and> is_Exception x))"
proof (cases "transactionId (args event) \<in> processed_source_tx_ids p")
  case True
  then show ?thesis
    by (simp add: process_deposit_event_skip relay_def relay_result_of_def)
next
  case False
  show ?thesis
  proof (cases "first_raise env")
    case None
    then have ok: "all_ok env" by (simp add: first_raise_None_iff)
    show ?thesis
      using False None ok release_steps_sends [of p env event] release_steps_hd [of p env event]
        all_ok_reaches_broadcast [OF ok]
      by (simp add: process_deposit_event_ok [OF False ok] relay_def relay_result_of_def)
  next
    case (Some x)
    then have "\<not> all_ok env" using first_raise_None_iff [of env] by simp
    then show ?thesis
      using False Some
      by (simp add: process_deposit_event_raise [OF False Some] relay_def relay_result_of_def)
  qed
qed

text \<open>A skipped call, a successful one, and two failing ones.\<close>

theorem skip_returns_True_like_success_witness:
  "transactionId (args deposit) \<in> processed_source_tx_ids processor_done
   \<and> process_deposit_event processor_done dest_ok deposit = (Inr True, processor_done, [])
   \<and> transactionId (args deposit) \<notin> processed_source_tx_ids processor0
   \<and> all_ok dest_ok
   \<and> fst (process_deposit_event processor0 dest_ok deposit) = Inr True
   \<and> fst (snd (process_deposit_event processor0 dest_ok deposit)) = processor_done
   \<and> first_raise estimate_gas_raises = Some OtherException
   \<and> is_Exception OtherException
   \<and> fst (process_deposit_event processor0 estimate_gas_raises deposit) = Inr False
   \<and> fst (snd (process_deposit_event processor0 estimate_gas_raises deposit)) = processor0
   \<and> first_raise send_raises = Some RequestException
   \<and> fst (process_deposit_event processor0 send_raises deposit) = Inr False"
proof -
  have h1: "transactionId (args deposit) \<in> processed_source_tx_ids processor_done"
    by (simp add: deposit_def processor_done_def)
  have h2: "transactionId (args deposit) \<notin> processed_source_tx_ids processor0"
    by (simp add: deposit_def processor0_def)
  have h3: "all_ok dest_ok"
    by (simp add: all_ok_def dest_ok_def returns_def)
  have h4: "first_raise estimate_gas_raises = Some OtherException"
           "first_raise send_raises = Some RequestException"
    by (simp_all add: first_raise_def estimate_gas_raises_def send_raises_def dest_ok_def)
  have h5: "is_Exception OtherException" "is_Exception RequestException"
    by (simp_all add: is_Exception_def)
  have after: "processor0\<lparr>processed_source_tx_ids :=
                 insert (transactionId (args deposit)) (processed_source_tx_ids processor0)\<rparr>
              = processor_done"
    by (simp add: processor_done_def processor0_def deposit_def)
  show ?thesis
    using h1 h2 h3 h4 h5 after
      skip_returns_True_like_success [of deposit processor_done dest_ok]
      skip_returns_True_like_success [of deposit processor0 dest_ok]
      skip_returns_True_like_success [of deposit processor0 estimate_gas_raises]
      skip_returns_True_like_success [of deposit processor0 send_raises]
    by simp
qed

section \<open>A failed relay leaves RelayState alone (C5)\<close>

text \<open>
  C5: when the event's id is not in \<open>processed_source_tx_ids\<close> and one of the six steps
  after the idempotency check (nonce, gas price, build, gas estimation, sign, broadcast)
  raises an \<open>Exception\<close>, \<open>process_deposit_event\<close> returns \<open>False\<close>, the processor
  is unchanged and the id is not in its set. A second call with the same event on the
  processor as the first call left it, whatever the destination answers then, is not
  skipped: it starts with \<open>get_transaction_count\<close>, when the steps before the broadcast
  succeed it hands a transaction with the event's id, recipient and amount to
  \<open>send_raw_transaction\<close>, and when every step succeeds it returns \<open>True\<close>.
\<close>

theorem failed_relay_leaves_event_eligible:
  assumes "transactionId (args event) \<notin> processed_source_tx_ids p"
    and "first_raise env = Some x" and "is_Exception x"
  shows "fst (process_deposit_event p env event) = Inr False
       \<and> fst (snd (process_deposit_event p env event)) = p
       \<and> transactionId (args event) \<notin>
            processed_source_tx_ids (fst (snd (process_deposit_event p env event)))
       \<and> (\<forall>env2.
            process_deposit_event (fst (snd (process_deposit_event p env event))) env2 event
              \<noteq> (Inr True, p, [])
            \<and> hd (snd (snd (process_deposit_event
                   (fst (snd (process_deposit_event p env event))) env2 event))) =
                GetTransactionCount (relayer_address p)
            \<and> (reaches_broadcast env2 \<longrightarrow>
                 (\<exists>tx. SendRawTransaction tx \<in> set (snd (snd (process_deposit_event
                          (fst (snd (process_deposit_event p env event))) env2 event)))
                       \<and> tx_sourceTransactionId tx = transactionId (args event)
                       \<and> tx_recipient tx = recipient (args event)
                       \<and> tx_amount tx = amount (args event)))
            \<and> (all_ok env2 \<longrightarrow>
                 fst (process_deposit_event
                        (fst (snd (process_deposit_event p env event))) env2 event) = Inr True))"
proof -
  have first: "process_deposit_event p env event =
                 (Inr False, p, snd (release_steps p env event))"
    using process_deposit_event_raise [OF assms(1,2)] assms(3) by simp
  then have same: "fst (snd (process_deposit_event p env event)) = p" by simp
  have second: "process_deposit_event p env2 event \<noteq> (Inr True, p, [])
            \<and> hd (snd (snd (process_deposit_event p env2 event))) =
                GetTransactionCount (relayer_address p)
            \<and> (reaches_broadcast env2 \<longrightarrow>
                 (\<exists>tx. SendRawTransaction tx \<in> set (snd (snd (process_deposit_event p env2 event)))
                       \<and> tx_sourceTransactionId tx = transactionId (args event)
                       \<and> tx_recipient tx = recipient (args event)
                       \<and> tx_amount tx = amount (args event)))
            \<and> (all_ok env2 \<longrightarrow> fst (process_deposit_event p env2 event) = Inr True)" for env2
  proof -
    have calls: "snd (snd (process_deposit_event p env2 event)) = snd (release_steps p env2 event)"
      using assms(1) by (simp add: process_deposit_event_fresh split: sum.splits)
    have ne: "process_deposit_event p env2 event \<noteq> (Inr True, p, [])"
      using calls release_steps_hd [of p env2 event] by auto
    have ok: "all_ok env2 \<longrightarrow> fst (process_deposit_event p env2 event) = Inr True"
      using process_deposit_event_ok [OF assms(1)] by simp
    show ?thesis
      using ne ok calls release_steps_hd [of p env2 event]
        release_steps_reaches_broadcast [of env2 p event] release_steps_send_tx [of _ p env2 event]
      by auto
  qed
  show ?thesis
    unfolding same using first assms(1) second by simp
qed

text \<open>Each of the six steps failing in turn, then a second call that succeeds.\<close>

theorem failed_relay_leaves_event_eligible_witness:
  "transactionId (args deposit) \<notin> processed_source_tx_ids processor0
   \<and> is_Exception OtherException \<and> is_Exception RequestException
   \<and> first_raise nonce_raises = Some OtherException
   \<and> process_deposit_event processor0 nonce_raises deposit =
       (Inr False, processor0, [GetTransactionCount ''relayer''])
   \<and> first_raise gas_price_raises = Some OtherException
   \<and> process_deposit_event processor0 gas_price_raises deposit =
       (Inr False, processor0, [GetTransactionCount ''relayer'', GasPrice])
   \<and> first_raise build_raises = Some OtherException
   \<and> process_deposit_event processor0 build_raises deposit =
       (Inr False, processor0,
        [GetTransactionCount ''relayer'', GasPrice, BuildTransaction release_of_deposit])
   \<and> first_raise estimate_gas_raises = Some OtherException
   \<and> process_deposit_event processor0 estimate_gas_raises deposit =
       (Inr False, processor0,
        [GetTransactionCount ''relayer'', GasPrice, BuildTransaction release_of_deposit,
         EstimateGas (release_of_deposit\<lparr>tx_gas := Some 30000\<rparr>)])
   \<and> first_raise sign_raises = Some OtherException
   \<and> process_deposit_event processor0 sign_raises deposit =
       (Inr False, processor0,
        [GetTransactionCount ''relayer'', GasPrice, BuildTransaction release_of_deposit,
         EstimateGas (release_of_deposit\<lparr>tx_gas := Some 30000\<rparr>),
         SignTransaction (release_of_deposit\<lparr>tx_gas := Some 21000\<rparr>)])
   \<and> first_raise send_raises = Some RequestException
   \<and> process_deposit_event processor0 send_raises deposit =
       (Inr False, processor0,
        [GetTransactionCount ''relayer'', GasPrice, BuildTransaction release_of_deposit,
         EstimateGas (release_of_deposit\<lparr>tx_gas := Some 30000\<rparr>),
         SignTransaction (release_of_deposit\<lparr>tx_gas := Some 21000\<rparr>),
         SendRawTransaction (release_of_deposit\<lparr>tx_gas := Some 21000\<rparr>)])
   \<and> reaches_broadcast dest_ok \<and> all_ok dest_ok
   \<and> process_deposit_event processor0 dest_ok deposit =
       (Inr True, processor_done,
        [GetTransactionCount ''relayer'', GasPrice, BuildTransaction release_of_deposit,
         EstimateGas (release_of_deposit\<lparr>tx_gas := Some 30000\<rparr>),
         SignTransaction (release_of_deposit\<lparr>tx_gas := Some 21000\<rparr>),
         SendRawTransaction (release_of_deposit\<lparr>tx_gas := Some 21000\<rparr>)])"
proof -
  have h1: "transactionId (args deposit) \<notin> processed_source_tx_ids processor0"
    by (simp add: deposit_def processor0_def)
  have e: "is_Exception OtherException" "is_Exception RequestException"
    by (simp_all add: is_Exception_def)
  have r1: "first_raise nonce_raises = Some OtherException"
    and r2: "first_raise gas_price_raises = Some OtherException"
    and r3: "first_raise build_raises = Some OtherException"
    and r4: "first_raise estimate_gas_raises = Some OtherException"
    and r5: "first_raise sign_raises = Some OtherException"
    and r6: "first_raise send_raises = Some RequestException"
    by (simp_all add: first_raise_def nonce_raises_def gas_price_raises_def build_raises_def
          estimate_gas_raises_def sign_raises_def send_raises_def dest_ok_def)
  have c1: "snd (snd (process_deposit_event processor0 nonce_raises deposit)) =
              [GetTransactionCount ''relayer'']"
    by (simp add: relay_defs)
  have c2: "snd (snd (process_deposit_event processor0 gas_price_raises deposit)) =
              [GetTransactionCount ''relayer'', GasPrice]"
    by (simp add: relay_defs)
  have c3: "snd (snd (process_deposit_event processor0 build_raises deposit)) =
              [GetTransactionCount ''relayer'', GasPrice, BuildTransaction release_of_deposit]"
    by (simp add: relay_defs release_of_deposit_def)
  have c4: "snd (snd (process_deposit_event processor0 estimate_gas_raises deposit)) =
        [GetTransactionCount ''relayer'', GasPrice, BuildTransaction release_of_deposit,
         EstimateGas (release_of_deposit\<lparr>tx_gas := Some 30000\<rparr>)]"
    by (simp add: relay_defs release_of_deposit_def)
  have c5: "snd (snd (process_deposit_event processor0 sign_raises deposit)) =
        [GetTransactionCount ''relayer'', GasPrice, BuildTransaction release_of_deposit,
         EstimateGas (release_of_deposit\<lparr>tx_gas := Some 30000\<rparr>),
         SignTransaction (release_of_deposit\<lparr>tx_gas := Some 21000\<rparr>)]"
    by (simp add: relay_defs release_of_deposit_def)
  have c6: "snd (snd (process_deposit_event processor0 send_raises deposit)) =
        [GetTransactionCount ''relayer'', GasPrice, BuildTransaction release_of_deposit,
         EstimateGas (release_of_deposit\<lparr>tx_gas := Some 30000\<rparr>),
         SignTransaction (release_of_deposit\<lparr>tx_gas := Some 21000\<rparr>),
         SendRawTransaction (release_of_deposit\<lparr>tx_gas := Some 21000\<rparr>)]"
    by (simp add: relay_defs release_of_deposit_def)
  have ok: "reaches_broadcast dest_ok" "all_ok dest_ok"
    by (simp_all add: reaches_broadcast_def all_ok_def dest_ok_def returns_def)
  have second: "process_deposit_event processor0 dest_ok deposit =
       (Inr True, processor_done,
        [GetTransactionCount ''relayer'', GasPrice, BuildTransaction release_of_deposit,
         EstimateGas (release_of_deposit\<lparr>tx_gas := Some 30000\<rparr>),
         SignTransaction (release_of_deposit\<lparr>tx_gas := Some 21000\<rparr>),
         SendRawTransaction (release_of_deposit\<lparr>tx_gas := Some 21000\<rparr>)])"
    by (simp add: relay_defs release_of_deposit_def)
  have f1: "process_deposit_event processor0 nonce_raises deposit =
       (Inr False, processor0, [GetTransactionCount ''relayer''])"
    using failed_relay_leaves_event_eligible [OF h1 r1 e(1)] c1 by (simp add: prod_eq_iff)
  have f2: "process_deposit_event processor0 gas_price_raises deposit =
       (Inr False, processor0, [GetTransactionCount ''relayer'', GasPrice])"
    using failed_relay_leaves_event_eligible [OF h1 r2 e(1)] c2 by (simp add: prod_eq_iff)
  have f3: "process_deposit_event processor0 build_raises deposit =
       (Inr False, processor0,
        [GetTransactionCount ''relayer'', GasPrice, BuildTransaction release_of_deposit])"
    using failed_relay_leaves_event_eligible [OF h1 r3 e(1)] c3 by (simp add: prod_eq_iff)
  have f4: "process_deposit_event processor0 estimate_gas_raises deposit =
       (Inr False, processor0,
        [GetTransactionCount ''relayer'', GasPrice, BuildTransaction release_of_deposit,
         EstimateGas (release_of_deposit\<lparr>tx_gas := Some 30000\<rparr>)])"
    using failed_relay_leaves_event_eligible [OF h1 r4 e(1)] c4 by (simp add: prod_eq_iff)
  have f5: "process_deposit_event processor0 sign_raises deposit =
       (Inr False, processor0,
        [GetTransactionCount ''relayer'', GasPrice, BuildTransaction release_of_deposit,
         EstimateGas (release_of_deposit\<lparr>tx_gas := Some 30000\<rparr>),
         SignTransaction (release_of_deposit\<lparr>tx_gas := Some 21000\<rparr>)])"
    using failed_relay_leaves_event_eligible [OF h1 r5 e(1)] c5 by (simp add: prod_eq_iff)
  have f6: "process_deposit_event processor0 send_raises deposit =
       (Inr False, processor0,
        [GetTransactionCount ''relayer'', GasPrice, BuildTransaction release_of_deposit,
         EstimateGas (release_of_deposit\<lparr>tx_gas := Some 30000\<rparr>),
         SignTransaction (release_of_deposit\<lparr>tx_gas := Some 21000\<rparr>),
         SendRawTransaction (release_of_deposit\<lparr>tx_gas := Some 21000\<rparr>)])"
    using failed_relay_leaves_event_eligible [OF h1 r6 e(2)] c6 by (simp add: prod_eq_iff)
  show ?thesis
    using h1 e r1 r2 r3 r4 r5 r6 f1 f2 f3 f4 f5 f6 ok second by simp
qed

section \<open>Repeated deliveries of one id (C3)\<close>

text \<open>
  C3 says that in every sequence of relay calls carrying one id exactly one call returns
  Submitted and the destination receives exactly one broadcast for the id. When
  \<open>estimate_gas\<close> raises in each call, every call returns \<open>False\<close> and none is
  Submitted. When \<open>send_raw_transaction\<close> raises in the first call and succeeds in the
  second, the results are Failed and Submitted, and \<open>send_raw_transaction\<close> was called
  twice with a transaction for the id.
\<close>

theorem submitted_and_broadcasts_not_exactly_one:
  "map fst (relay_seq processor0 two_failures) = [Inr Failed, Inr Failed]
   \<and> submitted_count (relay_seq processor0 two_failures) = 0
   \<and> map fst (relay_seq processor0 failed_broadcast_then_success) = [Inr Failed, Inr Submitted]
   \<and> broadcasts (relay_seq processor0 failed_broadcast_then_success) =
       [SendRawTransaction (release_of_deposit\<lparr>tx_gas := Some 21000\<rparr>),
        SendRawTransaction (release_of_deposit\<lparr>tx_gas := Some 21000\<rparr>)]"
  by (simp add: relay_defs two_failures_def failed_broadcast_then_success_def
        submitted_count_def broadcasts_def is_send_def release_of_deposit_def)

text \<open>
  C3, amended: in every sequence of relay calls carrying one id, under the same or
  different transaction hashes, at most one call returns Submitted; exactly one does when
  the id is not yet in \<open>processed_source_tx_ids\<close> and some call meets a destination
  whose steps all succeed, and none otherwise. Every call after the Submitted one returns
  Skipped and makes no web3 call; the Submitted call makes exactly one
  \<open>send_raw_transaction\<close> call. Over the whole sequence, every
  \<open>send_raw_transaction\<close> call carries the id, and their number is: none when the id
  was in the set; otherwise one for each attempt before the first successful one that
  got as far as the broadcast and failed there, plus one for the successful attempt if
  there is one.
\<close>

theorem at_most_one_submitted:
  assumes "\<forall>c\<in>set calls. transactionId (args (snd c)) = x"
  shows "submitted_count (relay_seq p calls) \<le> 1
       \<and> (submitted_count (relay_seq p calls) = 1 \<longleftrightarrow>
            x \<notin> processed_source_tx_ids p \<and> (\<exists>c\<in>set calls. all_ok (fst c)))
       \<and> (\<forall>i j. i < j \<and> j < length calls \<and> fst (relay_seq p calls ! i) = Inr Submitted \<longrightarrow>
            relay_seq p calls ! j = (Inr Skipped, []))
       \<and> (\<forall>r\<in>set (relay_seq p calls).
            (fst r = Inr Submitted \<longrightarrow> length (filter is_send (snd r)) = 1)
            \<and> (fst r = Inr Skipped \<longrightarrow> snd r = []))
       \<and> (\<forall>b\<in>set (broadcasts (relay_seq p calls)).
            \<exists>tx. b = SendRawTransaction tx \<and> tx_sourceTransactionId tx = x)
       \<and> length (broadcasts (relay_seq p calls)) =
           (if x \<in> processed_source_tx_ids p then 0
            else length (filter (\<lambda>c. reaches_broadcast (fst c))
                           (takeWhile (\<lambda>c. \<not> all_ok (fst c)) calls))
                 + (if \<exists>c\<in>set calls. all_ok (fst c) then 1 else 0))"
proof -
  have count: "submitted_count (relay_seq p calls) =
           (if x \<notin> processed_source_tx_ids p \<and> (\<exists>c\<in>set calls. all_ok (fst c)) then 1 else 0)"
    using submitted_count_eq [OF assms] .
  have c1: "submitted_count (relay_seq p calls) \<le> 1" using count by simp
  have c2: "submitted_count (relay_seq p calls) = 1 \<longleftrightarrow>
            x \<notin> processed_source_tx_ids p \<and> (\<exists>c\<in>set calls. all_ok (fst c))"
    using count by simp
  have c3: "\<forall>i j. i < j \<and> j < length calls \<and> fst (relay_seq p calls ! i) = Inr Submitted \<longrightarrow>
            relay_seq p calls ! j = (Inr Skipped, [])"
    using after_submitted_skipped [OF assms] by blast
  have each: "(fst r = Inr Submitted \<longrightarrow> length (filter is_send (snd r)) = 1)
            \<and> (fst r = Inr Skipped \<longrightarrow> snd r = [])"
    if r: "r \<in> set (relay_seq p calls)" for r
  proof -
    from relay_seq_member [OF r] obtain p' env event where
      r_eq: "r = (relay p' env event, snd (snd (process_deposit_event p' env event)))"
      by blast
    have sub: "length (filter is_send (snd r)) = 1" if "fst r = Inr Submitted"
    proof -
      from that have s: "transactionId (args event) \<notin> processed_source_tx_ids p'" "all_ok env"
        using r_eq relay_Submitted_iff by auto
      show ?thesis
        using calls_of_fresh [OF s(1), of env] release_steps_sends [of p' env event]
          all_ok_reaches_broadcast [OF s(2)] r_eq
        by simp
    qed
    have skip: "snd r = []" if "fst r = Inr Skipped"
      using that r_eq by (simp add: relay_Skipped_iff process_deposit_event_skip)
    show ?thesis using sub skip by blast
  qed
  then have c4: "\<forall>r\<in>set (relay_seq p calls).
            (fst r = Inr Submitted \<longrightarrow> length (filter is_send (snd r)) = 1)
            \<and> (fst r = Inr Skipped \<longrightarrow> snd r = [])"
    by blast
  have c5: "\<forall>b\<in>set (broadcasts (relay_seq p calls)).
            \<exists>tx. b = SendRawTransaction tx \<and> tx_sourceTransactionId tx = x"
    using broadcasts_carry_id [OF assms] by blast
  have c6: "length (broadcasts (relay_seq p calls)) =
           (if x \<in> processed_source_tx_ids p then 0
            else length (filter (\<lambda>c. reaches_broadcast (fst c))
                           (takeWhile (\<lambda>c. \<not> all_ok (fst c)) calls))
                 + (if \<exists>c\<in>set calls. all_ok (fst c) then 1 else 0))"
    using broadcasts_count [OF assms] .
  show ?thesis
    by (intro conjI) (rule c1 c2 c3 c4 c5 c6)+
qed

theorem at_most_one_submitted_witness:
  "map fst (relay_seq processor0 three_deliveries) = [Inr Failed, Inr Submitted, Inr Skipped]
   \<and> submitted_count (relay_seq processor0 three_deliveries) = 1
   \<and> relay_seq processor0 three_deliveries ! 2 = (Inr Skipped, [])
   \<and> length (broadcasts (relay_seq processor0 three_deliveries)) = 1
   \<and> length (broadcasts (relay_seq processor0 failed_broadcast_then_success)) = 2
   \<and> transactionHash resent_deposit \<noteq> transactionHash deposit"
proof -
  have h: "\<forall>c\<in>set three_deliveries. transactionId (args (snd c)) = 0xAB"
    by (simp add: three_deliveries_def deposit_def resent_deposit_def)
  have h2: "\<forall>c\<in>set failed_broadcast_then_success. transactionId (args (snd c)) = 0xAB"
    by (simp add: failed_broadcast_then_success_def deposit_def)
  have outcomes:
    "map fst (relay_seq processor0 three_deliveries) = [Inr Failed, Inr Submitted, Inr Skipped]"
    by (simp add: relay_defs three_deliveries_def resent_deposit_def)
  have ok: "\<exists>c\<in>set three_deliveries. all_ok (fst c)"
    by (simp add: three_deliveries_def all_ok_def dest_ok_def returns_def)
  have fresh: "0xAB \<notin> processed_source_tx_ids processor0"
    by (simp add: processor0_def)
  have len: "length three_deliveries = 3"
    by (simp add: three_deliveries_def)
  have "fst (relay_seq processor0 three_deliveries ! 1) =
          map fst (relay_seq processor0 three_deliveries) ! 1"
    by (simp add: relay_seq_length len)
  then have sub: "fst (relay_seq processor0 three_deliveries ! 1) = Inr Submitted"
    by (simp add: outcomes)
  note facts = at_most_one_submitted [OF h, of processor0]
  have count: "submitted_count (relay_seq processor0 three_deliveries) = 1"
    using facts ok fresh by blast
  have "(1::nat) < 2 \<and> 2 < length three_deliveries
        \<and> fst (relay_seq processor0 three_deliveries ! 1) = Inr Submitted"
    using len sub by simp
  then have later: "relay_seq processor0 three_deliveries ! 2 = (Inr Skipped, [])"
    using facts by blast
  have sends: "length (broadcasts (relay_seq processor0 three_deliveries)) =
      length (filter (\<lambda>c. reaches_broadcast (fst c))
                (takeWhile (\<lambda>c. \<not> all_ok (fst c)) three_deliveries))
      + (if \<exists>c\<in>set three_deliveries. all_ok (fst c) then 1 else 0)"
    using facts fresh by simp
  have one: "length (broadcasts (relay_seq processor0 three_deliveries)) = 1"
    unfolding sends
    by (simp add: three_deliveries_def all_ok_def reaches_broadcast_def returns_def
          dest_ok_def estimate_gas_raises_def)
  have sends2: "length (broadcasts (relay_seq processor0 failed_broadcast_then_success)) =
      length (filter (\<lambda>c. reaches_broadcast (fst c))
                (takeWhile (\<lambda>c. \<not> all_ok (fst c)) failed_broadcast_then_success))
      + (if \<exists>c\<in>set failed_broadcast_then_success. all_ok (fst c) then 1 else 0)"
    using at_most_one_submitted [OF h2, of processor0] fresh by simp
  have two: "length (broadcasts (relay_seq processor0 failed_broadcast_then_success)) = 2"
    unfolding sends2
    by (simp add: failed_broadcast_then_success_def all_ok_def reaches_broadcast_def
          returns_def dest_ok_def send_raises_def)
  show ?thesis
    using outcomes count later one two by (simp add: deposit_def resent_deposit_def)
qed

section \<open>The rate limit of the monitor (C4)\<close>

text \<open>
  C4 says that \<open>last_checkin\<close> is set whenever a push was attempted, so that three
  reports 20 seconds apart make at most one attempt even when the sink cannot be reached.
  \<open>self.last_checkin = current_time\<close> stands inside the \<open>try\<close>, after
  \<open>requests.post\<close>: when the post raises, the assignment is not reached. With the sink
  unreachable at 1000, 1020 and 1040 seconds the monitor posts three times, and
  \<open>last_checkin\<close> is still 0 after the first attempt.
\<close>

theorem unreachable_sink_three_attempts:
  "length (report_seq monitor0 (unreachable_spaced_reports 1000)) = 3
   \<and> fst (snd (report_status monitor0 1000 (Inl RequestException) OPERATIONAL 112 0)) = monitor0
   \<and> length (snd (snd (report_status monitor0 1000 (Inl RequestException) OPERATIONAL 112 0))) = 1"
  by (simp add: monitor0_def unreachable_spaced_reports_def report_status_def Let_def)

text \<open>
  C4, amended: a call less than \<open>checkin_interval\<close> after \<open>last_checkin\<close> does nothing.
  Otherwise one post is attempted; \<open>last_checkin\<close> becomes the current time when the post
  came back with a response, whatever its status code, and stays as it was when the post
  raised; a \<open>RequestException\<close> is swallowed. Consequently, of three reports 20 seconds
  apart (interval 60), at most one is posted when the sink answers each post, and all three
  are posted when the sink cannot be reached and the first report is due.
\<close>

theorem last_checkin_set_when_sink_responds:
  "(current_time - last_checkin m < checkin_interval m \<longrightarrow>
      report_status m current_time post st blk pending = (Inr (), m, []))
   \<and> (\<not> current_time - last_checkin m < checkin_interval m \<longrightarrow>
        length (snd (snd (report_status m current_time post st blk pending))) = 1
        \<and> (\<forall>code. post = Inr code \<longrightarrow>
              fst (report_status m current_time post st blk pending) = Inr ()
              \<and> fst (snd (report_status m current_time post st blk pending)) =
                  m\<lparr>last_checkin := current_time\<rparr>)
        \<and> (\<forall>x. post = Inl x \<longrightarrow>
              fst (snd (report_status m current_time post st blk pending)) = m)
        \<and> (post = Inl RequestException \<longrightarrow>
              fst (report_status m current_time post st blk pending) = Inr ()))
   \<and> (checkin_interval m = 60 \<longrightarrow> length (report_seq m (spaced_reports t c1 c2 c3)) \<le> 1)
   \<and> (checkin_interval m = 60 \<and> \<not> t - last_checkin m < 60 \<longrightarrow>
        length (report_seq m (unreachable_spaced_reports t)) = 3)"
  by (auto simp: report_status_def Let_def spaced_reports_def unreachable_spaced_reports_def
           split: sum.splits)

theorem last_checkin_set_when_sink_responds_witness:
  "\<not> 1000 - last_checkin monitor0 < checkin_interval monitor0
   \<and> fst (snd (report_status monitor0 1000 (Inr 503) OPERATIONAL 112 0)) =
       monitor0\<lparr>last_checkin := 1000\<rparr>
   \<and> 1020 - last_checkin (monitor0\<lparr>last_checkin := 1000\<rparr>)
        < checkin_interval (monitor0\<lparr>last_checkin := 1000\<rparr>)
   \<and> report_status (monitor0\<lparr>last_checkin := 1000\<rparr>) 1020 (Inr 200) OPERATIONAL 113 0 =
       (Inr (), monitor0\<lparr>last_checkin := 1000\<rparr>, [])
   \<and> checkin_interval monitor0 = 60
   \<and> length (report_seq monitor0 (spaced_reports 1000 503 503 503)) = 1
   \<and> length (report_seq monitor0 (unreachable_spaced_reports 1000)) = 3"
proof -
  have h1: "\<not> 1000 - last_checkin monitor0 < checkin_interval monitor0"
    by (simp add: monitor0_def)
  have h2: "1020 - last_checkin (monitor0\<lparr>last_checkin := 1000\<rparr>)
        < checkin_interval (monitor0\<lparr>last_checkin := 1000\<rparr>)"
    by (simp add: monitor0_def)
  have h3: "checkin_interval monitor0 = 60" "\<not> 1000 - last_checkin monitor0 < 60"
    by (simp_all add: monitor0_def)
  have one: "length (report_seq monitor0 (spaced_reports 1000 503 503 503)) = 1"
    by (simp add: monitor0_def spaced_reports_def report_status_def Let_def)
  show ?thesis
    using h1 h2 h3 one
      last_checkin_set_when_sink_responds
        [of 1000 monitor0 "Inr 503" OPERATIONAL 112 0 1000 503 503 503]
      last_checkin_set_when_sink_responds
        [of 1020 "monitor0\<lparr>last_checkin := 1000\<rparr>" "Inr 200" OPERATIONAL 113 0 1000 503 503 503]
    by simp
qed

section \<open>The loop of main\<close>

lemmas scenario_defs = relayer0_def listener0_def listener_seen_deposit_def processor0_def
  monitor0_def healthy_poll_def reachable_def deposit_def dest_ok_def estimate_gas_raises_def
  get_confirmed_events_def get_confirmed_events_body_def get_latest_block_number_def
  process_deposit_event_def release_steps_def built_tx_def report_status_def
  loop_body_def handle_exception_def is_Exception_def py_int_def Let_def

section \<open>A failed relay across cycles (C1)\<close>

text \<open>
  C1 says that an event whose relay failed is surfaced again by the watcher and relayed
  again on a later cycle. \<open>get_confirmed_events\<close> puts the transaction hash into
  \<open>processed_events\<close> when it returns the event, before the relay is attempted. In the
  first cycle the deposit is confirmed and \<open>estimate_gas\<close> raises: the relay fails and
  \<open>processed_source_tx_ids\<close> stays empty. In the second cycle the log fetch delivers the
  deposit again and the destination would accept the release, but the poll returns nothing
  and the cycle makes no web3 call.
\<close>

theorem failed_event_not_retried_next_cycle:
  "loop_body relayer0 failing_relay_cycle =
     (Inr (), relayer_after_first_cycle,
      [Web3 (GetTransactionCount ''relayer''), Web3 GasPrice,
       Web3 (BuildTransaction release_of_deposit),
       Web3 (EstimateGas (release_of_deposit\<lparr>tx_gas := Some 30000\<rparr>)),
       Push (operational_payload\<lparr>pendingTransactions := 1\<rparr>)])
   \<and> processed_source_tx_ids (the_processor relayer_after_first_cycle) = {}
   \<and> new_entries (poll redelivery_cycle) = Inr [deposit]
   \<and> all_ok (relays redelivery_cycle 0)
   \<and> get_confirmed_events (the_listener relayer_after_first_cycle) (poll redelivery_cycle) =
        (Inr [], the_listener relayer_after_first_cycle)
   \<and> loop_body relayer_after_first_cycle redelivery_cycle =
        (Inr (), relayer_after_first_cycle, [])"
  by (simp add: scenario_defs failing_relay_cycle_def relayer_after_first_cycle_def
      release_of_deposit_def operational_payload_def redelivery_cycle_def all_ok_def returns_def)

text \<open>
  C1, amended: when the relay of an event that the watcher returned fails, the processor is
  unchanged and the event's id is not in \<open>processed_source_tx_ids\<close>, so that a later
  call of the relay with this event would not be skipped. But the event's transaction hash
  is in \<open>processed_events\<close> from the poll that returned it, and no later poll returns an
  entry with this hash, whatever the log fetch delivers: the loop, which relays what the
  poll returns, does not attempt the event again.
\<close>

theorem failed_event_not_resurfaced:
  assumes "get_confirmed_events l env = (Inr confirmed, l')" and "e \<in> set confirmed"
    and "relay p denv e = Inr Failed"
  shows "fst (snd (process_deposit_event p denv e)) = p
       \<and> transactionId (args e) \<notin> processed_source_tx_ids p
       \<and> (\<forall>denv2. relay p denv2 e \<noteq> Inr Skipped)
       \<and> (\<exists>t. transactionHash e = Some t \<and> t \<in> processed_events l')
       \<and> (\<forall>envs. \<forall>later\<in>set (poll_outputs l' envs). \<forall>e'\<in>set later.
             transactionHash e' \<noteq> transactionHash e)"
proof -
  have fresh: "transactionId (args e) \<notin> processed_source_tx_ids p"
    using assms(3) relay_Skipped_iff [of p denv e] by auto
  have "\<not> all_ok denv"
    using assms(3) fresh relay_Submitted_iff [of p denv e] by auto
  then have same: "fst (snd (process_deposit_event p denv e)) = p"
    by (simp add: processor_after)
  have eligible: "\<forall>denv2. relay p denv2 e \<noteq> Inr Skipped"
    using fresh by (simp add: relay_Skipped_iff)
  obtain t where t: "transactionHash e = Some t" "t \<in> processed_events l'"
    using poll_returned(2) [OF assms(1)] assms(2) by blast
  have never: "\<forall>envs. \<forall>later\<in>set (poll_outputs l' envs). \<forall>e'\<in>set later.
             transactionHash e' \<noteq> transactionHash e"
  proof (intro allI ballI)
    fix envs later e'
    assume "later \<in> set (poll_outputs l' envs)" and "e' \<in> set later"
    from poll_outputs_fresh [OF this] show "transactionHash e' \<noteq> transactionHash e"
      using t by auto
  qed
  show ?thesis using same fresh eligible t never by blast
qed

theorem failed_event_not_resurfaced_witness:
  "get_confirmed_events listener0 (healthy_poll 112 [deposit]) =
     (Inr [deposit], listener_seen_deposit)
   \<and> relay processor0 estimate_gas_raises deposit = Inr Failed
   \<and> fst (snd (process_deposit_event processor0 estimate_gas_raises deposit)) = processor0
   \<and> relay processor0 dest_ok deposit = Inr Submitted
   \<and> transactionHash deposit = Some 0xA1
   \<and> 0xA1 \<in> processed_events listener_seen_deposit
   \<and> poll_outputs listener_seen_deposit
        [healthy_poll 113 [deposit], healthy_poll 130 [deposit]] = [[], []]"
proof -
  have h1: "get_confirmed_events listener0 (healthy_poll 112 [deposit]) =
     (Inr [deposit], listener_seen_deposit)"
    by (simp add: scenario_defs)
  have h2: "deposit \<in> set [deposit]" by simp
  have h3: "relay processor0 estimate_gas_raises deposit = Inr Failed"
    by (simp add: scenario_defs relay_def relay_result_of_def)
  have again: "relay processor0 dest_ok deposit = Inr Submitted"
    by (simp add: scenario_defs relay_def relay_result_of_def)
  have later: "poll_outputs listener_seen_deposit
        [healthy_poll 113 [deposit], healthy_poll 130 [deposit]] = [[], []]"
    by (simp add: scenario_defs)
  have hash: "transactionHash deposit = Some 0xA1" by (simp add: deposit_def)
  show ?thesis
    using h1 h3 again later hash failed_event_not_resurfaced [OF h1 h2 h3] by simp
qed

section \<open>The report of a fatal error (C8)\<close>

text \<open>
  C8: after an unhandled error in the loop body, a push with status ERROR is to reach the
  health sink before the process ends; the handler of \<open>main\<close> calls
  \<open>report_status('ERROR', 0, 0)\<close> and says so (``Report critical failure''). The call
  goes through the rate limit of \<open>report_status\<close>, which returns at once when less than
  \<open>checkin_interval\<close> seconds have passed since \<open>last_checkin\<close>. A first cycle checks
  in at 1000 seconds; in the second cycle, at 1015 seconds, \<open>web3.eth.block_number\<close>
  raises: \<open>main\<close> ends in its handler, and the only push of the run is the OPERATIONAL
  one of the first cycle. When the same error comes in a first cycle, with no check-in
  before it, the ERROR payload is pushed.
\<close>

theorem fatal_error_report_dropped:
  "main_loop relayer0 [quiet_cycle, height_raises_cycle] handler_soon =
     (Fatal, relayer_checked_in, [Push operational_payload])
   \<and> main_loop relayer0 [height_raises_cycle] handler_soon =
     (Fatal, relayer0\<lparr>the_monitor := monitor0\<lparr>last_checkin := 1015\<rparr>\<rparr>, [Push error_payload])"
  by (simp add: scenario_defs quiet_cycle_def height_raises_cycle_def handler_soon_def
      relayer_checked_in_def operational_payload_def error_payload_def)

end
